theory Spec2Isabelle
  imports Complex_Main "HOL-Library.Multiset" "HOL-Library.Char_ord"
    "HOL-Library.List_Lexorder" "HOL-Library.Product_Lexorder"
begin


section \<open>HipSTR: PCR duplicate removal and per-locus genotyping dispatch\<close>

text \<open>
  A shallow embedding of \<^verbatim>\<open>src/pcr_duplicates.cpp\<close> and of
  \<^verbatim>\<open>GenotyperBamProcessor::analyze_reads_and_phasing\<close>.

  Conventions.
  \<^item> \<^verbatim>\<open>int32_t\<close> and \<^verbatim>\<open>int\<close> values (positions, counters, base-pair differences)
    are \<open>int\<close>: the code only compares them, negates them and adds small constants, and
    signed overflow has no defined wrap-around in C++.
  \<^item> \<^verbatim>\<open>std::string\<close> is \<open>string\<close>; \<^verbatim>\<open>std::string::compare\<close> is the lexicographic
    order on byte values, which is the order of \<open>Char_ord\<close> lifted by \<open>List_Lexorder\<close>.
  \<^item> \<^verbatim>\<open>printErrorAndDie\<close> and a failing \<^verbatim>\<open>assert\<close> end the run: they are the
    \<open>Inl\<close> results of the model.
  \<^item> \<^verbatim>\<open>double\<close> phasing log-likelihoods are only copied, never computed with: \<open>real\<close>.
\<close>

subsection \<open>Alignments (the fields of BamTools::BamAlignment that the code reads)\<close>

type_synonym CigarOp = "char \<times> nat"

record BamAlignment =
  Name :: string
  Filename :: string
  Position :: int
  Qualities :: string
  CigarData :: "CigarOp list"
  RG :: "string option"  \<comment> \<open>the value of the \<^verbatim>\<open>RG\<close> tag, \<open>None\<close> when the tag is absent\<close>

text \<open>The value of a default-constructed alignment, held by \<^verbatim>\<open>aln_2_\<close> of a
  single-ended pair; the code never reads it.\<close>

definition default_BamAlignment :: BamAlignment where
  "default_BamAlignment =
     \<lparr>Name = [], Filename = [], Position = - 1, Qualities = [], CigarData = [], RG = None\<rparr>"

datatype error =
    MissingRGTag  \<comment> \<open>\<^verbatim>\<open>Failed to retrieve BAM alignment's RG tag\<close>\<close>
  | NoLibraryForReadGroup string  \<comment> \<open>\<^verbatim>\<open>No library found for read group ... in BAM file headers\<close>\<close>
  | RecalcNotImplemented  \<comment> \<open>\<^verbatim>\<open>recalc_stutter_model option not yet implemented\<close>\<close>
  | AssertionFailed
  | IndexOutOfRange  \<comment> \<open>an unchecked \<^verbatim>\<open>operator[]\<close> read past the end of a vector\<close>

subsection \<open>class ReadPair\<close>

record ReadPair =
  min_read_start :: int
  max_read_start :: int
  aln_1 :: BamAlignment
  aln_2 :: BamAlignment
  library :: string

definition ReadPair_single :: "BamAlignment \<Rightarrow> string \<Rightarrow> ReadPair" where
  "ReadPair_single a lib =
     \<lparr>min_read_start = - 1, max_read_start = Position a,
      aln_1 = a, aln_2 = default_BamAlignment, library = lib\<rparr>"

definition ReadPair_paired :: "BamAlignment \<Rightarrow> BamAlignment \<Rightarrow> string \<Rightarrow> ReadPair" where
  "ReadPair_paired a b lib =
     \<lparr>min_read_start = min (Position a) (Position b),
      max_read_start = max (Position a) (Position b),
      aln_1 = a, aln_2 = b, library = lib\<rparr>"

definition aln_one :: "ReadPair \<Rightarrow> BamAlignment" where
  "aln_one p = aln_1 p"

definition aln_two :: "ReadPair \<Rightarrow> BamAlignment" where
  "aln_two p = aln_2 p"

definition single_ended :: "ReadPair \<Rightarrow> bool" where
  "single_ended p = (min_read_start p = - 1)"

text \<open>\<^verbatim>\<open>a.compare(b)\<close>: negative, zero or positive.\<close>

definition string_compare :: "string \<Rightarrow> string \<Rightarrow> int" where
  "string_compare a b = (if a < b then - 1 else if a = b then 0 else 1)"

definition duplicate :: "ReadPair \<Rightarrow> ReadPair \<Rightarrow> bool" where
  "duplicate p pair =
     (string_compare (library p) (library pair) = 0
      \<and> min_read_start p = min_read_start pair
      \<and> max_read_start p = max_read_start pair)"

text \<open>\<^verbatim>\<open>operator <\<close>\<close>

definition ReadPair_less :: "ReadPair \<Rightarrow> ReadPair \<Rightarrow> bool" where
  "ReadPair_less p pair =
     (let lib_comp = string_compare (library p) (library pair) in
      if lib_comp \<noteq> 0 then lib_comp < 0
      else if min_read_start p \<noteq> min_read_start pair
        then min_read_start p < min_read_start pair
      else max_read_start p < max_read_start pair)"

text \<open>The (library, min fragment start, max fragment start) signature of a read pair.\<close>

definition signature :: "ReadPair \<Rightarrow> string \<times> int \<times> int" where
  "signature p = (library p, min_read_start p, max_read_start p)"

subsection \<open>get\_library and the library of a read\<close>

definition get_library :: "BamAlignment \<Rightarrow> (string \<rightharpoonup> string) \<Rightarrow> error + string" where
  "get_library aln rg_to_library =
     (case RG aln of
        None \<Rightarrow> Inl MissingRGTag
      | Some rg \<Rightarrow>
          (case rg_to_library rg of
             None \<Rightarrow> Inl (NoLibraryForReadGroup rg)
           | Some lib \<Rightarrow> Inr lib))"

text \<open>\<^verbatim>\<open>rg_to_library[key]\<close> on a non-const \<^verbatim>\<open>std::map\<close>: a missing key is inserted
  with the empty string, which is returned.\<close>

definition map_subscript ::
  "(string \<rightharpoonup> string) \<Rightarrow> string \<Rightarrow> string \<times> (string \<rightharpoonup> string)" where
  "map_subscript m k = (case m k of None \<Rightarrow> ([], m(k \<mapsto> [])) | Some v \<Rightarrow> (v, m))"

text \<open>\<^verbatim>\<open>use_bam_rgs ? get_library(aln, rg_to_library) : rg_to_library[aln.Filename]\<close>\<close>

definition read_library ::
  "bool \<Rightarrow> BamAlignment \<Rightarrow> (string \<rightharpoonup> string) \<Rightarrow> error + (string \<times> (string \<rightharpoonup> string))" where
  "read_library use_bam_rgs aln rg_to_library =
     (if use_bam_rgs then
        (case get_library aln rg_to_library of
           Inl e \<Rightarrow> Inl e
         | Inr lib \<Rightarrow> Inr (lib, rg_to_library))
      else Inr (map_subscript rg_to_library (Filename aln)))"

subsection \<open>remove\_pcr\_duplicates\<close>

text \<open>The two loops that fill \<^verbatim>\<open>read_pairs\<close> (lines 79-86). The first runs over the
  paired reads and their mates index by index; it is called with vectors of equal length
  (the assertion of line 76), where \<open>zip\<close> is that traversal.\<close>

fun add_paired ::
  "bool \<Rightarrow> (BamAlignment \<times> BamAlignment) list \<Rightarrow> (string \<rightharpoonup> string) \<Rightarrow> ReadPair list
     \<Rightarrow> error + (ReadPair list \<times> (string \<rightharpoonup> string))" where
  "add_paired use_bam_rgs [] m read_pairs = Inr (read_pairs, m)"
| "add_paired use_bam_rgs ((a, b) # rest) m read_pairs =
     (case read_library use_bam_rgs a m of
        Inl e \<Rightarrow> Inl e
      | Inr (lib, m') \<Rightarrow>
          add_paired use_bam_rgs rest m' (read_pairs @ [ReadPair_paired a b lib]))"

fun add_unpaired ::
  "bool \<Rightarrow> BamAlignment list \<Rightarrow> (string \<rightharpoonup> string) \<Rightarrow> ReadPair list
     \<Rightarrow> error + (ReadPair list \<times> (string \<rightharpoonup> string))" where
  "add_unpaired use_bam_rgs [] m read_pairs = Inr (read_pairs, m)"
| "add_unpaired use_bam_rgs (a # rest) m read_pairs =
     (case read_library use_bam_rgs a m of
        Inl e \<Rightarrow> Inl e
      | Inr (lib, m') \<Rightarrow>
          add_unpaired use_bam_rgs rest m' (read_pairs @ [ReadPair_single a lib]))"

definition build_read_pairs ::
  "bool \<Rightarrow> (string \<rightharpoonup> string) \<Rightarrow> BamAlignment list \<Rightarrow> BamAlignment list \<Rightarrow> BamAlignment list
     \<Rightarrow> error + (ReadPair list \<times> (string \<rightharpoonup> string))" where
  "build_read_pairs use_bam_rgs m paired mates unpaired =
     (case add_paired use_bam_rgs (zip paired mates) m [] of
        Inl e \<Rightarrow> Inl e
      | Inr (read_pairs, m') \<Rightarrow> add_unpaired use_bam_rgs unpaired m' read_pairs)"

text \<open>The three output vectors of one read group: paired STR reads, their mates,
  unpaired STR reads.\<close>

type_synonym rg_vectors = "BamAlignment list \<times> BamAlignment list \<times> BamAlignment list"

text \<open>Lines 105-110 and 116-121: keep a pair.\<close>

definition keep_pair :: "ReadPair \<Rightarrow> rg_vectors \<Rightarrow> rg_vectors" where
  "keep_pair p out =
     (case out of (paired, mates, unpaired) \<Rightarrow>
        if single_ended p then (paired, mates, unpaired @ [aln_one p])
        else (paired @ [aln_one p], mates @ [aln_two p], unpaired))"

text \<open>The scan of lines 95-113 from index \<open>j\<close> on, with the current \<open>best_index\<close>, the
  output vectors and the duplicate count. The base quality scorer
  \<^verbatim>\<open>BaseQuality::sum_log_prob_correct\<close> is not part of the sources at hand: it is the
  parameter \<open>slpc\<close>, with values in any linear order (as the doubles it returns are,
  NaN apart).\<close>

function scan_pairs ::
  "(string \<Rightarrow> 'q::linorder) \<Rightarrow> ReadPair list \<Rightarrow> nat \<Rightarrow> nat \<Rightarrow> rg_vectors \<Rightarrow> int
     \<Rightarrow> nat \<times> rg_vectors \<times> int" where
  "scan_pairs slpc read_pairs j best_index out dup_count =
     (if j < length read_pairs then
        (if duplicate (read_pairs ! j) (read_pairs ! best_index) then
           scan_pairs slpc read_pairs (Suc j)
             (if slpc (Qualities (aln_one (read_pairs ! j)))
                   > slpc (Qualities (aln_one (read_pairs ! best_index)))
              then j else best_index)
             out (dup_count + 1)
         else
           scan_pairs slpc read_pairs (Suc j) j
             (keep_pair (read_pairs ! best_index) out) dup_count)
      else (best_index, out, dup_count))"
  by pat_completeness auto
termination
  by (relation "measure (\<lambda>(slpc, read_pairs, j, best_index, out, dup_count). length read_pairs - j)")
    auto

declare scan_pairs.simps [simp del]

text \<open>The state of the loop over the read groups: the library map and the three vectors,
  all passed by reference, and the local \<^verbatim>\<open>dup_count\<close>, whose final value is what the
  function writes to the logger.\<close>

record dedup_state =
  rg_to_library :: "string \<rightharpoonup> string"
  paired_strs_by_rg :: "BamAlignment list list"
  mate_pairs_by_rg :: "BamAlignment list list"
  unpaired_strs_by_rg :: "BamAlignment list list"
  dup_count :: int

text \<open>The body of the loop over the read groups (lines 76-121) for the group \<open>i\<close>.
  \<^verbatim>\<open>std::sort\<close> is the parameter \<open>sort_pairs\<close>: the standard fixes its result only up
  to the order of equivalent elements.\<close>

definition dedup_read_group ::
  "(string \<Rightarrow> 'q::linorder) \<Rightarrow> (ReadPair list \<Rightarrow> ReadPair list) \<Rightarrow> bool \<Rightarrow> nat \<Rightarrow> dedup_state
     \<Rightarrow> error + dedup_state" where
  "dedup_read_group slpc sort_pairs use_bam_rgs i st =
     (if length (paired_strs_by_rg st ! i) \<noteq> length (mate_pairs_by_rg st ! i)
      then Inl AssertionFailed
      else
        (case build_read_pairs use_bam_rgs (rg_to_library st) (paired_strs_by_rg st ! i)
                (mate_pairs_by_rg st ! i) (unpaired_strs_by_rg st ! i) of
           Inl e \<Rightarrow> Inl e
         | Inr (unsorted, m') \<Rightarrow>
             (let read_pairs = sort_pairs unsorted in
              if length read_pairs = 0 then
                Inr (st\<lparr>rg_to_library := m',
                        paired_strs_by_rg := (paired_strs_by_rg st)[i := []],
                        mate_pairs_by_rg := (mate_pairs_by_rg st)[i := []],
                        unpaired_strs_by_rg := (unpaired_strs_by_rg st)[i := []]\<rparr>)
              else
                (case scan_pairs slpc read_pairs 1 0 ([], [], []) (dup_count st) of
                   (best_index, out, dups) \<Rightarrow>
                     (case keep_pair (read_pairs ! best_index) out of
                        (paired, mates, unpaired) \<Rightarrow>
                          Inr (st\<lparr>rg_to_library := m',
                                  paired_strs_by_rg := (paired_strs_by_rg st)[i := paired],
                                  mate_pairs_by_rg := (mate_pairs_by_rg st)[i := mates],
                                  unpaired_strs_by_rg := (unpaired_strs_by_rg st)[i := unpaired],
                                  dup_count := dups\<rparr>))))))"

function rg_loop ::
  "(string \<Rightarrow> 'q::linorder) \<Rightarrow> (ReadPair list \<Rightarrow> ReadPair list) \<Rightarrow> bool \<Rightarrow> nat \<Rightarrow> dedup_state
     \<Rightarrow> error + dedup_state" where
  "rg_loop slpc sort_pairs use_bam_rgs i st =
     (if i < length (paired_strs_by_rg st) then
        (case dedup_read_group slpc sort_pairs use_bam_rgs i st of
           Inl e \<Rightarrow> Inl e
         | Inr st' \<Rightarrow>
             rg_loop slpc sort_pairs use_bam_rgs (Suc i) st')
      else Inr st)"
  by pat_completeness auto

text \<open>Its termination is shown below, once the body is known to keep the number of
  read groups.\<close>

text \<open>The whole function: the assertion of line 74, the loop over the read groups, and the
  count that line 123 reports (\<open>dup_count\<close> of the result).\<close>

definition remove_pcr_duplicates ::
  "(string \<Rightarrow> 'q::linorder) \<Rightarrow> (ReadPair list \<Rightarrow> ReadPair list) \<Rightarrow> bool
     \<Rightarrow> (string \<rightharpoonup> string) \<Rightarrow> BamAlignment list list \<Rightarrow> BamAlignment list list
     \<Rightarrow> BamAlignment list list \<Rightarrow> error + dedup_state" where
  "remove_pcr_duplicates slpc sort_pairs use_bam_rgs m paired mates unpaired =
     (if \<not> (length paired = length mates \<and> length paired = length unpaired)
      then Inl AssertionFailed
      else rg_loop slpc sort_pairs use_bam_rgs 0
             \<lparr>rg_to_library = m, paired_strs_by_rg = paired, mate_pairs_by_rg = mates,
              unpaired_strs_by_rg = unpaired, dup_count = 0\<rparr>)"

subsection \<open>GenotyperBamProcessor: the data of analyze\_reads\_and\_phasing\<close>

record Region =
  chrom :: string
  start :: int
  stop :: int
  period :: int

text \<open>What the function writes to its logger, and the calls it makes to its
  collaborators (model dictionary, genotypers, VCF writers), in the order of execution.
  The clock readings and the timing fields computed from them are left out.\<close>

datatype event =
    Log_skipping_locus int int  \<comment> \<open>\<^verbatim>\<open>Skipping locus with too few reads: TOTAL=.., MIN=..\<close>\<close>
  | Log_excluding_read string  \<comment> \<open>\<^verbatim>\<open>WARNING: Excluding read with bp difference ...\<close>\<close>
  | Log_no_stutter_model Region  \<comment> \<open>\<^verbatim>\<open>WARNING: No stutter model found for ...\<close>\<close>
  | Log_building_EM
  | Log_training_EM
  | Log_learned_model
  | Log_training_failed Region int
  | Log_locus_timing bool  \<comment> \<open>with the genotyping lines or without\<close>
  | Call_model_lookup Region
  | Call_EM_construct
  | Call_EM_train
  | Call_write_model
  | Call_EM_set_stutter_model
  | Call_EM_genotype
  | Call_EM_write_vcf
  | Call_Seq_construct
  | Call_Seq_write_alleles
  | Call_Seq_genotype
  | Call_Seq_write_vcf

text \<open>The constructor arguments of the two genotypers.\<close>

record EM_args =
  em_chrom :: string
  em_start :: int
  em_stop :: int
  em_haploid :: bool
  em_bp_lengths :: "int list list"
  em_log_p1s :: "real list list"
  em_log_p2s :: "real list list"
  em_rg_names :: "string list"
  em_period :: int

record 'sm Seq_args =
  seq_region :: Region
  seq_haploid :: bool
  seq_alignments :: "BamAlignment list list"
  seq_log_p1s :: "real list list"
  seq_log_p2s :: "real list list"
  seq_rg_names :: "string list"
  seq_chrom_seq :: string
  seq_stutter_model :: 'sm
  seq_reference_panel :: bool

text \<open>The collaborators whose code is not part of the sources at hand, as parameters:
  \<^verbatim>\<open>ExtractCigar\<close> (\<open>None\<close> when it returns false, otherwise the \<^verbatim>\<open>bp_diff\<close> it
  sets), \<^verbatim>\<open>EMStutterGenotyper::train\<close> with the iteration cap and the convergence
  thresholds, \<^verbatim>\<open>get_stutter_model\<close>, and the \<^verbatim>\<open>genotype\<close> methods of the two
  genotypers. \<open>'sm\<close> is the type of stutter models.\<close>

record 'sm collaborators =
  ExtractCigar :: "CigarOp list \<Rightarrow> int \<Rightarrow> int \<Rightarrow> int \<Rightarrow> int option"
  EM_train :: "EM_args \<Rightarrow> bool"
  EM_get_stutter_model :: "EM_args \<Rightarrow> 'sm"
  EM_genotype :: "EM_args \<Rightarrow> 'sm \<Rightarrow> bool"
  Seq_genotype :: "'sm Seq_args \<Rightarrow> bool"

text \<open>The members of the processor that the function reads or writes.\<close>

record 'sm GenotyperBamProcessor =
  MIN_TOTAL_READS :: int
  read_stutter_models :: bool
  use_seq_aligner :: bool
  output_stutter_models :: bool
  output_alleles :: bool
  output_str_gts :: bool
  recalc_stutter_model :: bool
  have_ref_vcf :: bool
  haploid_chroms :: "string set"
  stutter_models :: "Region \<rightharpoonup> 'sm"
  num_em_converge :: int
  num_em_fail :: int
  num_genotype_success :: int
  num_genotype_fail :: int
  trace :: "event list"

definition emit :: "event list \<Rightarrow> 'sm GenotyperBamProcessor \<Rightarrow> 'sm GenotyperBamProcessor" where
  "emit evs st = st\<lparr>trace := trace st @ evs\<rparr>"

subsection \<open>The length-difference extraction loop (lines 21-51)\<close>

record extraction =
  str_bp_lengths :: "int list list"
  str_log_p1s :: "real list list"
  str_log_p2s :: "real list list"
  inf_reads :: int
  skip_count :: int
  ex_log :: "event list"

definition init_extraction :: "nat \<Rightarrow> extraction" where
  "init_extraction n =
     \<lparr>str_bp_lengths = replicate n [], str_log_p1s = replicate n [],
      str_log_p2s = replicate n [], inf_reads = 0, skip_count = 0, ex_log = []\<rparr>"

text \<open>\<^verbatim>\<open>v[i].push_back(x)\<close>\<close>

definition push_back_at :: "nat \<Rightarrow> 'a \<Rightarrow> 'a list list \<Rightarrow> 'a list list" where
  "push_back_at i x v = v[i := v ! i @ [x]]"

text \<open>The body of the inner loop (lines 31-48) for the read \<open>aln = alignments[i][j]\<close>.
  \<^verbatim>\<open>log_p1s[i][j]\<close> and \<^verbatim>\<open>log_p2s[i][j]\<close> are unchecked reads.\<close>

definition extract_read ::
  "'sm collaborators \<Rightarrow> Region \<Rightarrow> real list list \<Rightarrow> real list list \<Rightarrow> nat \<Rightarrow> nat
     \<Rightarrow> BamAlignment \<Rightarrow> extraction \<Rightarrow> error + extraction" where
  "extract_read ext region log_p1s log_p2s i j aln ex =
     (case ExtractCigar ext (CigarData aln) (Position aln)
             (start region - period region) (stop region + period region) of
        Some bp_diff \<Rightarrow>
          if bp_diff < - (stop region - start region + 1) then
            Inr (ex\<lparr>ex_log := ex_log ex @ [Log_excluding_read (Name aln)]\<rparr>)
          else
            (let ex1 = ex\<lparr>inf_reads := inf_reads ex + 1,
                           str_bp_lengths := push_back_at i bp_diff (str_bp_lengths ex)\<rparr>
             in
               if length log_p1s = 0 then
                 Inr (ex1\<lparr>str_log_p1s := push_back_at i 0 (str_log_p1s ex1),
                          str_log_p2s := push_back_at i 0 (str_log_p2s ex1)\<rparr>)
               else if i < length log_p1s \<and> j < length (log_p1s ! i)
                       \<and> i < length log_p2s \<and> j < length (log_p2s ! i) then
                 Inr (ex1\<lparr>str_log_p1s := push_back_at i (log_p1s ! i ! j) (str_log_p1s ex1),
                          str_log_p2s := push_back_at i (log_p2s ! i ! j) (str_log_p2s ex1)\<rparr>)
               else Inl IndexOutOfRange)
      | None \<Rightarrow> Inr (ex\<lparr>skip_count := skip_count ex + 1\<rparr>))"

text \<open>The inner loop over the reads of group \<open>i\<close>, from index \<open>j\<close> on.\<close>

fun extract_group ::
  "'sm collaborators \<Rightarrow> Region \<Rightarrow> real list list \<Rightarrow> real list list \<Rightarrow> nat \<Rightarrow> nat
     \<Rightarrow> BamAlignment list \<Rightarrow> extraction \<Rightarrow> error + extraction" where
  "extract_group ext region log_p1s log_p2s i j [] ex = Inr ex"
| "extract_group ext region log_p1s log_p2s i j (aln # rest) ex =
     (case extract_read ext region log_p1s log_p2s i j aln ex of
        Inl e \<Rightarrow> Inl e
      | Inr ex' \<Rightarrow> extract_group ext region log_p1s log_p2s i (Suc j) rest ex')"

text \<open>The outer loop over the read groups, from index \<open>i\<close> on.\<close>

fun extract_groups ::
  "'sm collaborators \<Rightarrow> Region \<Rightarrow> real list list \<Rightarrow> real list list \<Rightarrow> nat
     \<Rightarrow> BamAlignment list list \<Rightarrow> extraction \<Rightarrow> error + extraction" where
  "extract_groups ext region log_p1s log_p2s i [] ex = Inr ex"
| "extract_groups ext region log_p1s log_p2s i (alns # rest) ex =
     (case extract_group ext region log_p1s log_p2s i 0 alns ex of
        Inl e \<Rightarrow> Inl e
      | Inr ex' \<Rightarrow> extract_groups ext region log_p1s log_p2s (Suc i) rest ex')"

text \<open>Lines 21-51: the vectors are created with one empty entry per read group, and the
  loop runs only if the length-based genotyper is needed.\<close>

definition extract_lengths ::
  "'sm collaborators \<Rightarrow> bool \<Rightarrow> bool \<Rightarrow> Region \<Rightarrow> BamAlignment list list
     \<Rightarrow> real list list \<Rightarrow> real list list \<Rightarrow> error + extraction" where
  "extract_lengths ext read_models seq_aligner region alignments log_p1s log_p2s =
     (if \<not> read_models \<or> \<not> seq_aligner then
        extract_groups ext region log_p1s log_p2s 0 alignments
          (init_extraction (length alignments))
      else Inr (init_extraction (length alignments)))"

subsection \<open>Stutter model acquisition (lines 58-92)\<close>

definition make_EM_args ::
  "Region \<Rightarrow> bool \<Rightarrow> extraction \<Rightarrow> string list \<Rightarrow> EM_args" where
  "make_EM_args region haploid ex rg_names =
     \<lparr>em_chrom = chrom region, em_start = start region, em_stop = stop region,
      em_haploid = haploid, em_bp_lengths = str_bp_lengths ex,
      em_log_p1s = str_log_p1s ex, em_log_p2s = str_log_p2s ex,
      em_rg_names = rg_names, em_period = period region\<rparr>"

text \<open>The result: the processor, \<^verbatim>\<open>stutter_model\<close> (\<open>None\<close> is the null pointer) and
  whether \<^verbatim>\<open>length_genotyper\<close> has been constructed.\<close>

definition acquire_stutter_model ::
  "'sm collaborators \<Rightarrow> 'sm GenotyperBamProcessor \<Rightarrow> Region \<Rightarrow> EM_args \<Rightarrow> int
     \<Rightarrow> 'sm GenotyperBamProcessor \<times> 'sm option \<times> bool" where
  "acquire_stutter_model ext st region args informative =
     (if read_stutter_models st then
        (case stutter_models st region of
           Some model \<Rightarrow> (emit [Call_model_lookup region] st, Some model, False)
         | None \<Rightarrow>
             (emit [Call_model_lookup region, Log_no_stutter_model region] st, None, False))
      else
        (let st1 = emit [Log_building_EM, Call_EM_construct, Log_training_EM, Call_EM_train] st;
             trained = EM_train ext args
         in
           if trained then
             (let st2 = (if output_stutter_models st1 then emit [Call_write_model] st1 else st1);
                  st3 = st2\<lparr>num_em_converge := num_em_converge st2 + 1\<rparr>
              in (emit [Log_learned_model] st3, Some (EM_get_stutter_model ext args), True))
           else
             (let st2 = st1\<lparr>num_em_fail := num_em_fail st1 + 1\<rparr>
              in (emit [Log_training_failed region informative] st2, None, True))))"

subsection \<open>Genotyping dispatch (lines 94-145)\<close>

definition genotype_seq ::
  "'sm collaborators \<Rightarrow> 'sm GenotyperBamProcessor \<Rightarrow> 'sm Seq_args
     \<Rightarrow> error + 'sm GenotyperBamProcessor" where
  "genotype_seq ext st args =
     (let st1 = emit [Call_Seq_construct] st;
          st2 = (if output_alleles st1 then emit [Call_Seq_write_alleles] st1 else st1)
      in
        if output_str_gts st2 then
          (if Seq_genotype ext args then
             (let st3 = (emit [Call_Seq_genotype] st2)
                          \<lparr>num_genotype_success := num_genotype_success st2 + 1\<rparr>;
                  st4 = (if output_str_gts st3 then emit [Call_Seq_write_vcf] st3 else st3)
              in if recalc_stutter_model st4 then Inl RecalcNotImplemented else Inr st4)
           else
             Inr ((emit [Call_Seq_genotype] st2)
                    \<lparr>num_genotype_fail := num_genotype_fail st2 + 1\<rparr>))
        else Inr st2)"

definition genotype_length ::
  "'sm collaborators \<Rightarrow> 'sm GenotyperBamProcessor \<Rightarrow> EM_args \<Rightarrow> 'sm \<Rightarrow> bool
     \<Rightarrow> 'sm GenotyperBamProcessor" where
  "genotype_length ext st args model have_length_genotyper =
     (let st1 = (if \<not> have_length_genotyper
                 then emit [Call_EM_construct, Call_EM_set_stutter_model] st else st)
      in
        if output_str_gts st1 then
          (if EM_genotype ext args model then
             (let st2 = (emit [Call_EM_genotype] st1)
                          \<lparr>num_genotype_success := num_genotype_success st1 + 1\<rparr>
              in if output_str_gts st2 then emit [Call_EM_write_vcf] st2 else st2)
           else
             (emit [Call_EM_genotype] st1)
               \<lparr>num_genotype_fail := num_genotype_fail st1 + 1\<rparr>)
        else st1)"

text \<open>The block guarded by \<^verbatim>\<open>stutter_model != NULL\<close>.\<close>

definition genotyping_block ::
  "'sm collaborators \<Rightarrow> 'sm GenotyperBamProcessor \<Rightarrow> 'sm option \<Rightarrow> bool \<Rightarrow> EM_args
     \<Rightarrow> Region \<Rightarrow> bool \<Rightarrow> BamAlignment list list \<Rightarrow> real list list \<Rightarrow> real list list
     \<Rightarrow> string list \<Rightarrow> string \<Rightarrow> error + 'sm GenotyperBamProcessor" where
  "genotyping_block ext st stutter_model have_length_genotyper em_args
       region haploid alignments log_p1s log_p2s rg_names chrom_seq =
     (case stutter_model of
        None \<Rightarrow> Inr st
      | Some model \<Rightarrow>
          if use_seq_aligner st then
            genotype_seq ext st
              \<lparr>seq_region = region, seq_haploid = haploid, seq_alignments = alignments,
               seq_log_p1s = log_p1s, seq_log_p2s = log_p2s, seq_rg_names = rg_names,
               seq_chrom_seq = chrom_seq, seq_stutter_model = model,
               seq_reference_panel = have_ref_vcf st\<rparr>
          else Inr (genotype_length ext st em_args model have_length_genotyper))"

text \<open>Lines 58-166: everything after the two minimum-read checks.\<close>

definition train_and_genotype ::
  "'sm collaborators \<Rightarrow> 'sm GenotyperBamProcessor \<Rightarrow> extraction
     \<Rightarrow> BamAlignment list list \<Rightarrow> real list list \<Rightarrow> real list list
     \<Rightarrow> string list \<Rightarrow> Region \<Rightarrow> string \<Rightarrow> error + 'sm GenotyperBamProcessor" where
  "train_and_genotype ext st ex alignments log_p1s log_p2s rg_names region chrom_seq =
     (let haploid = (chrom region \<in> haploid_chroms st);
          em_args = make_EM_args region haploid ex rg_names
      in
        (case acquire_stutter_model ext st region em_args (inf_reads ex) of
           (st1, stutter_model, have_length_genotyper) \<Rightarrow>
             (case genotyping_block ext st1 stutter_model have_length_genotyper em_args
                     region haploid alignments log_p1s log_p2s rg_names chrom_seq of
                Inl e \<Rightarrow> Inl e
              | Inr st2 \<Rightarrow> Inr (emit [Log_locus_timing (stutter_model \<noteq> None)] st2))))"

subsection \<open>analyze\_reads\_and\_phasing\<close>

text \<open>Lines 12-14.\<close>

definition count_reads :: "BamAlignment list list \<Rightarrow> int" where
  "count_reads alignments = foldl (\<lambda>total alns. total + int (length alns)) 0 alignments"

definition analyze_reads_and_phasing ::
  "'sm collaborators \<Rightarrow> 'sm GenotyperBamProcessor
     \<Rightarrow> BamAlignment list list \<Rightarrow> real list list \<Rightarrow> real list list
     \<Rightarrow> string list \<Rightarrow> Region \<Rightarrow> string \<Rightarrow> string \<Rightarrow> error + 'sm GenotyperBamProcessor" where
  "analyze_reads_and_phasing ext st alignments log_p1s log_p2s rg_names region ref_allele chrom_seq =
     (let total_reads = count_reads alignments in
      if total_reads < MIN_TOTAL_READS st then
        Inr (emit [Log_skipping_locus total_reads (MIN_TOTAL_READS st)] st)
      else if \<not> (length alignments = length log_p1s \<and> length alignments = length log_p2s
                   \<and> length alignments = length rg_names) then
        Inl AssertionFailed
      else
        (case extract_lengths ext (read_stutter_models st) (use_seq_aligner st) region
                alignments log_p1s log_p2s of
           Inl e \<Rightarrow> Inl e
         | Inr ex \<Rightarrow>
             (let st1 = emit (ex_log ex) st in
              if total_reads - skip_count ex < MIN_TOTAL_READS st1 then
                Inr (emit [Log_skipping_locus (total_reads - skip_count ex) (MIN_TOTAL_READS st1)] st1)
              else
                train_and_genotype ext st1 ex alignments log_p1s log_p2s rg_names region chrom_seq)))"

section \<open>Notions used in the statements and proofs\<close>

text \<open>Phasing log-likelihoods 0 for every recorded length difference.\<close>

definition equal_weight :: "int list list \<Rightarrow> real list list" where
  "equal_weight lengths = map (\<lambda>l. replicate (length l) 0) lengths"

text \<open>The invariant of the extraction loop when no phasing log-likelihoods are given.\<close>

definition no_phasing_inv :: "extraction \<Rightarrow> bool" where
  "no_phasing_inv ex \<longleftrightarrow>
     str_log_p1s ex = equal_weight (str_bp_lengths ex)
     \<and> str_log_p2s ex = equal_weight (str_bp_lengths ex)"

text \<open>What \<^verbatim>\<open>std::sort\<close> guarantees for a comparison that is a strict weak ordering:
  the result is a permutation of the input in which no element is less than an earlier
  one. The theorems about \<open>remove_pcr_duplicates\<close> hold for every function with this
  contract.\<close>

definition std_sort_contract :: "(ReadPair list \<Rightarrow> ReadPair list) \<Rightarrow> bool" where
  "std_sort_contract sort_pairs \<longleftrightarrow>
     (\<forall>xs. mset (sort_pairs xs) = mset xs
        \<and> sorted_wrt (\<lambda>a b. \<not> ReadPair_less b a) (sort_pairs xs))"

text \<open>The indices at which the scan of \<open>scan_pairs\<close> keeps a pair, in the order of the
  calls of \<open>keep_pair\<close>, from the loop state \<open>(j, best_index)\<close> on; the last one is the
  index kept after the loop (lines 116-121).\<close>

function kept_indices ::
  "(string \<Rightarrow> 'q::linorder) \<Rightarrow> ReadPair list \<Rightarrow> nat \<Rightarrow> nat \<Rightarrow> nat list" where
  "kept_indices slpc read_pairs j best_index =
     (if j < length read_pairs then
        (if duplicate (read_pairs ! j) (read_pairs ! best_index) then
           kept_indices slpc read_pairs (Suc j)
             (if slpc (Qualities (aln_one (read_pairs ! j)))
                   > slpc (Qualities (aln_one (read_pairs ! best_index)))
              then j else best_index)
         else best_index # kept_indices slpc read_pairs (Suc j) j)
      else [best_index])"
  by pat_completeness auto
termination
  by (relation "measure (\<lambda>(slpc, read_pairs, j, best_index). length read_pairs - j)") auto

declare kept_indices.simps [simp del]

text \<open>The summed log-probability of the primary read of a pair (lines 99-100).\<close>

definition score :: "(string \<Rightarrow> 'q) \<Rightarrow> ReadPair \<Rightarrow> 'q" where
  "score slpc p = slpc (Qualities (aln_one p))"

text \<open>Sortedness of the scanned vector, by indices.\<close>

definition sorted_by_signature :: "ReadPair list \<Rightarrow> bool" where
  "sorted_by_signature s \<longleftrightarrow>
     (\<forall>a b. a \<le> b \<and> b < length s \<longrightarrow> signature (s ! a) \<le> signature (s ! b))"

text \<open>The invariant of the scan: every index before \<open>j\<close> has a signature at most that of
  \<open>best\<close>, and \<open>best\<close> is the first index of maximal score among those before \<open>j\<close> with
  its signature.\<close>

definition scan_inv :: "(string \<Rightarrow> 'q::linorder) \<Rightarrow> ReadPair list \<Rightarrow> nat \<Rightarrow> nat \<Rightarrow> bool" where
  "scan_inv slpc s j best \<longleftrightarrow>
     best < j \<and> j \<le> length s
     \<and> (\<forall>m<j. signature (s ! m) \<le> signature (s ! best))
     \<and> (\<forall>m<j. signature (s ! m) = signature (s ! best) \<longrightarrow>
           score slpc (s ! m) \<le> score slpc (s ! best)
           \<and> (score slpc (s ! m) = score slpc (s ! best) \<longrightarrow> best \<le> m))"

text \<open>The index \<open>b\<close> has the maximal score among the indices with its signature, and is
  the first of them with that score.\<close>

definition first_best :: "(string \<Rightarrow> 'q::linorder) \<Rightarrow> ReadPair list \<Rightarrow> nat \<Rightarrow> bool" where
  "first_best slpc s b \<longleftrightarrow>
     (\<forall>m<length s. signature (s ! m) = signature (s ! b) \<longrightarrow>
        score slpc (s ! m) \<le> score slpc (s ! b)
        \<and> (score slpc (s ! m) = score slpc (s ! b) \<longrightarrow> b \<le> m))"

text \<open>The read pairs that the scan keeps from the vector \<open>read_pairs\<close>.\<close>

definition retained_pairs :: "(string \<Rightarrow> 'q::linorder) \<Rightarrow> ReadPair list \<Rightarrow> ReadPair list" where
  "retained_pairs slpc read_pairs =
     (if length read_pairs = 0 then [] else map ((!) read_pairs) (kept_indices slpc read_pairs 1 0))"

text \<open>The output vectors after keeping the given pairs one after the other.\<close>

definition emit_pairs :: "ReadPair list \<Rightarrow> rg_vectors" where
  "emit_pairs kept = foldl (\<lambda>out p. keep_pair p out) ([], [], []) kept"

text \<open>The library that the code assigns to a read under the map \<open>m\<close>, or its error.\<close>

definition library_of :: "bool \<Rightarrow> (string \<rightharpoonup> string) \<Rightarrow> BamAlignment \<Rightarrow> error + string" where
  "library_of use_bam_rgs m aln =
     (case read_library use_bam_rgs aln m of Inl e \<Rightarrow> Inl e | Inr (lib, m') \<Rightarrow> Inr lib)"

text \<open>The vector \<^verbatim>\<open>read_pairs\<close> of a read group before sorting, built from the map
  \<open>m\<close> that \<open>remove_pcr_duplicates\<close> was called with.\<close>

definition group_read_pairs ::
  "bool \<Rightarrow> (string \<rightharpoonup> string) \<Rightarrow> BamAlignment list \<Rightarrow> BamAlignment list \<Rightarrow> BamAlignment list
     \<Rightarrow> ReadPair list" where
  "group_read_pairs use_bam_rgs m paired mates unpaired =
     (case build_read_pairs use_bam_rgs m paired mates unpaired of
        Inl e \<Rightarrow> []
      | Inr (read_pairs, m') \<Rightarrow> read_pairs)"

text \<open>The library of a read does not depend on the entries that \<^verbatim>\<open>operator[]\<close> has
  inserted on the way.\<close>

definition same_libraries :: "bool \<Rightarrow> (string \<rightharpoonup> string) \<Rightarrow> (string \<rightharpoonup> string) \<Rightarrow> bool" where
  "same_libraries use_bam_rgs m1 m2 \<longleftrightarrow>
     (\<forall>aln. library_of use_bam_rgs m1 aln = library_of use_bam_rgs m2 aln)"

text \<open>Two runs of the loops that fill \<^verbatim>\<open>read_pairs\<close> end alike.\<close>

definition same_outcome ::
  "bool \<Rightarrow> error + (ReadPair list \<times> (string \<rightharpoonup> string))
     \<Rightarrow> error + (ReadPair list \<times> (string \<rightharpoonup> string)) \<Rightarrow> bool" where
  "same_outcome u r1 r2 \<longleftrightarrow>
     (case r1 of
        Inl e \<Rightarrow> r2 = Inl e
      | Inr (rps, m1) \<Rightarrow> (\<exists>m2. r2 = Inr (rps, m2) \<and> same_libraries u m1 m2))"

text \<open>The read pairs of group \<open>k\<close> of a state, sorted, and those of them the scan keeps.\<close>

definition group_sorted ::
  "(ReadPair list \<Rightarrow> ReadPair list) \<Rightarrow> bool \<Rightarrow> (string \<rightharpoonup> string) \<Rightarrow> dedup_state \<Rightarrow> nat
     \<Rightarrow> ReadPair list" where
  "group_sorted sort_pairs u m0 st k =
     sort_pairs (group_read_pairs u m0 (paired_strs_by_rg st ! k) (mate_pairs_by_rg st ! k)
       (unpaired_strs_by_rg st ! k))"

text \<open>Group \<open>k\<close> passes the assertion of line 76 and every read of it has a library.\<close>

definition group_ok :: "bool \<Rightarrow> (string \<rightharpoonup> string) \<Rightarrow> dedup_state \<Rightarrow> nat \<Rightarrow> bool" where
  "group_ok u m0 st k \<longleftrightarrow>
     length (paired_strs_by_rg st ! k) = length (mate_pairs_by_rg st ! k)
     \<and> (\<exists>rps m'. build_read_pairs u m0 (paired_strs_by_rg st ! k) (mate_pairs_by_rg st ! k)
           (unpaired_strs_by_rg st ! k) = Inr (rps, m'))"

text \<open>What the loop over the read groups, started at \<open>i\<close> in the state \<open>st\<close>, has
  done when it returns \<open>res\<close>.\<close>

definition loop_post ::
  "(string \<Rightarrow> 'q::linorder) \<Rightarrow> (ReadPair list \<Rightarrow> ReadPair list) \<Rightarrow> bool \<Rightarrow> (string \<rightharpoonup> string)
     \<Rightarrow> nat \<Rightarrow> dedup_state \<Rightarrow> dedup_state \<Rightarrow> bool" where
  "loop_post slpc sort_pairs u m0 i st res \<longleftrightarrow>
     length (paired_strs_by_rg res) = length (paired_strs_by_rg st)
     \<and> length (mate_pairs_by_rg res) = length (mate_pairs_by_rg st)
     \<and> length (unpaired_strs_by_rg res) = length (unpaired_strs_by_rg st)
     \<and> (\<forall>k<i. paired_strs_by_rg res ! k = paired_strs_by_rg st ! k
            \<and> mate_pairs_by_rg res ! k = mate_pairs_by_rg st ! k
            \<and> unpaired_strs_by_rg res ! k = unpaired_strs_by_rg st ! k)
     \<and> (\<forall>k. i \<le> k \<and> k < length (paired_strs_by_rg st) \<longrightarrow>
            group_ok u m0 st k
            \<and> (paired_strs_by_rg res ! k, mate_pairs_by_rg res ! k, unpaired_strs_by_rg res ! k)
                = emit_pairs (retained_pairs slpc (group_sorted sort_pairs u m0 st k)))
     \<and> dup_count res = dup_count st
          + (\<Sum>k = i..<length (paired_strs_by_rg st).
               int (length (group_sorted sort_pairs u m0 st k))
               - int (length (retained_pairs slpc (group_sorted sort_pairs u m0 st k))))"

text \<open>Errors of the library lookup.\<close>

fun library_error :: "error \<Rightarrow> bool" where
  "library_error MissingRGTag = True"
| "library_error (NoLibraryForReadGroup rg) = True"
| "library_error e = False"

section \<open>Example inputs\<close>

text \<open>Concrete reads, a region, collaborators and a processor, on which the functions
  are evaluated below. \<open>example_sort\<close> is a stable insertion sort on the signature, one of
  the functions that meet the contract of \<^verbatim>\<open>std::sort\<close>; \<open>example_score\<close> counts the
  lowest-quality bases of a read.\<close>

definition example_read :: "string \<Rightarrow> int \<Rightarrow> string \<Rightarrow> BamAlignment" where
  "example_read name pos quals =
     \<lparr>Name = name, Filename = ''sample.bam'', Position = pos, Qualities = quals,
      CigarData = [(CHR ''M'', 36)], RG = Some ''rg1''\<rparr>"

definition example_region :: Region where
  "example_region = \<lparr>chrom = ''chr1'', start = 100, stop = 111, period = 4\<rparr>"

definition example_collaborators :: "bool \<Rightarrow> nat collaborators" where
  "example_collaborators converges =
     \<lparr>ExtractCigar = (\<lambda>cigar pos lo hi. if pos < 0 then None else Some (pos - hi)),
      EM_train = (\<lambda>args. converges),
      EM_get_stutter_model = (\<lambda>args. 7),
      EM_genotype = (\<lambda>args model. True),
      Seq_genotype = (\<lambda>args. True)\<rparr>"

definition example_processor :: "int \<Rightarrow> bool \<Rightarrow> bool \<Rightarrow> nat GenotyperBamProcessor" where
  "example_processor min_reads load seq =
     \<lparr>MIN_TOTAL_READS = min_reads, read_stutter_models = load, use_seq_aligner = seq,
      output_stutter_models = False, output_alleles = False, output_str_gts = True,
      recalc_stutter_model = False, have_ref_vcf = False, haploid_chroms = {},
      stutter_models = Map.empty, num_em_converge = 0, num_em_fail = 0,
      num_genotype_success = 0, num_genotype_fail = 0, trace = []\<rparr>"

definition example_alignments :: "BamAlignment list list" where
  "example_alignments =
     [[example_read ''r1'' 103 ''II'', example_read ''r2'' 102 ''II''], [example_read ''r3'' 110 ''II'']]"

definition example_log_p1s :: "real list list" where
  "example_log_p1s = [[- 1, - 2], [- 3]]"

definition example_log_p2s :: "real list list" where
  "example_log_p2s = [[- 4, - 5], [- 6]]"

definition example_extraction :: extraction where
  "example_extraction =
     \<lparr>str_bp_lengths = [[- 12], [- 5]], str_log_p1s = [[- 1], [- 3]], str_log_p2s = [[- 4], [- 6]],
      inf_reads = 2, skip_count = 0, ex_log = [Log_excluding_read ''r2'']\<rparr>"

definition example_score :: "string \<Rightarrow> int" where
  "example_score quals = - int (length (filter (\<lambda>c. c = CHR ''#'') quals))"

definition example_sort :: "ReadPair list \<Rightarrow> ReadPair list" where
  "example_sort = sort_key signature"

definition example_libraries :: "string \<rightharpoonup> string" where
  "example_libraries = [''sample.bam'' \<mapsto> ''lib1'', ''rg1'' \<mapsto> ''lib1'']"

definition example_paired :: "BamAlignment list list" where
  "example_paired = [[example_read ''p1'' 100 ''##'', example_read ''p2'' 100 ''#I'']]"

definition example_mates :: "BamAlignment list list" where
  "example_mates = [[example_read ''m1'' 300 ''II'', example_read ''m2'' 300 ''II'']]"

definition example_unpaired :: "BamAlignment list list" where
  "example_unpaired = [[example_read ''u1'' 150 ''II'']]"

definition example_sorted :: "ReadPair list" where
  "example_sorted =
     [ReadPair_single (example_read ''u1'' 150 ''II'') ''lib1'',
      ReadPair_paired (example_read ''p1'' 100 ''##'') (example_read ''m1'' 300 ''II'') ''lib1'',
      ReadPair_paired (example_read ''p2'' 100 ''#I'') (example_read ''m2'' 300 ''II'') ''lib1'']"

definition example_triplicate :: "BamAlignment list" where
  "example_triplicate =
     [example_read ''a'' 150 ''##'', example_read ''b'' 150 ''#I'', example_read ''c'' 150 ''II'']"

definition example_untagged :: BamAlignment where
  "example_untagged =
     \<lparr>Name = ''x'', Filename = ''other.bam'', Position = 150, Qualities = ''II'',
      CigarData = [(CHR ''M'', 36)], RG = None\<rparr>"

section \<open>Termination of the loop over the read groups\<close>

text \<open>The loop re-reads \<^verbatim>\<open>paired_strs_by_rg.size()\<close> in every iteration; its body
  replaces entries of the vectors and never changes their number.\<close>

lemma dedup_read_group_size:
  "dedup_read_group slpc sort_pairs use_bam_rgs i st = Inr st' \<Longrightarrow>
     length (paired_strs_by_rg st') = length (paired_strs_by_rg st)
     \<and> length (mate_pairs_by_rg st') = length (mate_pairs_by_rg st)
     \<and> length (unpaired_strs_by_rg st') = length (unpaired_strs_by_rg st)"
  by (auto simp: dedup_read_group_def Let_def split: if_splits sum.splits prod.splits)

termination rg_loop
proof (relation "measure (\<lambda>(slpc, sort_pairs, use_bam_rgs, i, st). length (paired_strs_by_rg st) - i)")
  show "wf (measure (\<lambda>(slpc :: string \<Rightarrow> 'a, sort_pairs, use_bam_rgs, i, st).
              length (paired_strs_by_rg st) - i))"
    by simp
next
  fix slpc :: "string \<Rightarrow> 'a" and sort_pairs use_bam_rgs i st st'
  assume "i < length (paired_strs_by_rg st)"
    and "dedup_read_group slpc sort_pairs use_bam_rgs i st = Inr st'"
  then show "((slpc, sort_pairs, use_bam_rgs, Suc i, st'), (slpc, sort_pairs, use_bam_rgs, i, st))
      \<in> measure (\<lambda>(slpc, sort_pairs, use_bam_rgs, i, st). length (paired_strs_by_rg st) - i)"
    using dedup_read_group_size [of slpc sort_pairs use_bam_rgs i st st'] by simp
qed

declare rg_loop.simps [simp del]

section \<open>Lemmas\<close>

subsection \<open>The extraction loop\<close>

lemma foldl_count_reads:
  "foldl (\<lambda>total alns. total + int (length alns)) t alignments
     = t + (\<Sum>alns\<leftarrow>alignments. int (length alns))"
  by (induction alignments arbitrary: t) auto

lemma count_reads_sum: "count_reads alignments = (\<Sum>alns\<leftarrow>alignments. int (length alns))"
  by (simp add: count_reads_def foldl_count_reads)

lemma emit_Nil [simp]: "emit [] st = st"
  by (simp add: emit_def)

lemma equal_weight_push_back:
  "push_back_at i 0 (equal_weight v) = equal_weight (push_back_at i x v)"
  by (cases "i < length v")
    (simp_all add: push_back_at_def equal_weight_def map_update replicate_append_same list_update_beyond)

lemma extract_read_no_phasing:
  assumes "no_phasing_inv ex"
  shows "\<exists>ex'. extract_read ext region [] log_p2s i j aln ex = Inr ex' \<and> no_phasing_inv ex'"
  using assms
  by (auto simp: extract_read_def Let_def no_phasing_inv_def equal_weight_push_back
      split: option.splits)

lemma extract_group_no_phasing:
  assumes "no_phasing_inv ex"
  shows "\<exists>ex'. extract_group ext region [] log_p2s i j alns ex = Inr ex' \<and> no_phasing_inv ex'"
  using assms
proof (induction alns arbitrary: j ex)
  case Nil
  then show ?case by simp
next
  case (Cons aln alns)
  from extract_read_no_phasing [OF Cons.prems, of ext region log_p2s i j aln]
  obtain ex1 where "extract_read ext region [] log_p2s i j aln ex = Inr ex1" "no_phasing_inv ex1"
    by blast
  with Cons.IH [of ex1 "Suc j"] show ?case by simp
qed

lemma extract_groups_no_phasing:
  assumes "no_phasing_inv ex"
  shows "\<exists>ex'. extract_groups ext region [] log_p2s i alignments ex = Inr ex' \<and> no_phasing_inv ex'"
  using assms
proof (induction alignments arbitrary: i ex)
  case Nil
  then show ?case by simp
next
  case (Cons alns alignments)
  from extract_group_no_phasing [OF Cons.prems, of ext region log_p2s i 0 alns]
  obtain ex1 where "extract_group ext region [] log_p2s i 0 alns ex = Inr ex1" "no_phasing_inv ex1"
    by blast
  with Cons.IH [of ex1 "Suc i"] show ?case by simp
qed

lemma init_no_phasing: "no_phasing_inv (init_extraction n)"
  by (simp add: no_phasing_inv_def init_extraction_def equal_weight_def)

subsection \<open>The order of read pairs\<close>

lemma duplicate_iff: "duplicate p pair \<longleftrightarrow> signature p = signature pair"
  by (auto simp: duplicate_def signature_def string_compare_def)

lemma ReadPair_less_iff: "ReadPair_less p pair \<longleftrightarrow> signature p < signature pair"
  by (auto simp: ReadPair_less_def signature_def string_compare_def Let_def less_prod_def
      less_eq_prod_def)

text \<open>\<^verbatim>\<open>operator <\<close> is a strict weak ordering, as \<^verbatim>\<open>std::sort\<close> requires, and its
  equivalence is \<open>duplicate\<close>.\<close>

lemma ReadPair_less_strict_weak_ordering:
  "\<not> ReadPair_less a a"
  "ReadPair_less a b \<Longrightarrow> ReadPair_less b c \<Longrightarrow> ReadPair_less a c"
  "(\<not> ReadPair_less a b \<and> \<not> ReadPair_less b a) = duplicate a b"
  by (auto simp: ReadPair_less_iff duplicate_iff)

subsection \<open>The scan for duplicates\<close>

lemma kept_indices_done: "length s \<le> j \<Longrightarrow> kept_indices slpc s j best = [best]"
  by (simp add: kept_indices.simps [of slpc s j best])

lemma kept_indices_dup:
  "j < length s \<Longrightarrow> duplicate (s ! j) (s ! best) \<Longrightarrow>
     kept_indices slpc s j best =
       kept_indices slpc s (Suc j)
         (if slpc (Qualities (aln_one (s ! j))) > slpc (Qualities (aln_one (s ! best)))
          then j else best)"
  by (simp add: kept_indices.simps [of slpc s j best])

lemma kept_indices_new:
  "j < length s \<Longrightarrow> \<not> duplicate (s ! j) (s ! best) \<Longrightarrow>
     kept_indices slpc s j best = best # kept_indices slpc s (Suc j) j"
  by (simp add: kept_indices.simps [of slpc s j best])

lemma scan_pairs_done: "length s \<le> j \<Longrightarrow> scan_pairs slpc s j best out d = (best, out, d)"
  by (simp add: scan_pairs.simps [of slpc s j best])

lemma scan_pairs_dup:
  "j < length s \<Longrightarrow> duplicate (s ! j) (s ! best) \<Longrightarrow>
     scan_pairs slpc s j best out d =
       scan_pairs slpc s (Suc j)
         (if slpc (Qualities (aln_one (s ! j))) > slpc (Qualities (aln_one (s ! best)))
          then j else best) out (d + 1)"
  by (simp add: scan_pairs.simps [of slpc s j best])

lemma scan_pairs_new:
  "j < length s \<Longrightarrow> \<not> duplicate (s ! j) (s ! best) \<Longrightarrow>
     scan_pairs slpc s j best out d =
       scan_pairs slpc s (Suc j) j (keep_pair (s ! best) out) d"
  by (simp add: scan_pairs.simps [of slpc s j best])

lemmas scan_steps = kept_indices_done kept_indices_dup kept_indices_new
  scan_pairs_done scan_pairs_dup scan_pairs_new

lemma scan_pairs_kept:
  "scan_pairs slpc s j best out d = (b, out', d') \<Longrightarrow> j \<le> length s \<Longrightarrow>
     keep_pair (s ! b) out' = foldl (\<lambda>out k. keep_pair (s ! k) out) out (kept_indices slpc s j best)
     \<and> d' = d + int (length s - j) + 1 - int (length (kept_indices slpc s j best))"
proof (induction slpc s j best out d rule: scan_pairs.induct)
  case (1 slpc s j best out d)
  show ?case
  proof (cases "j < length s")
    case False
    with "1.prems" show ?thesis
      by (simp add: scan_steps)
  next
    case True
    show ?thesis
    proof (cases "duplicate (s ! j) (s ! best)")
      case dup: True
      from "1.IH"(1) [OF True dup] "1.prems" True dup show ?thesis
        by (simp add: scan_steps Suc_diff_Suc
            split: if_splits)
    next
      case nodup: False
      from "1.IH"(2) [OF True nodup] "1.prems" True nodup show ?thesis
        by (simp add: scan_steps Suc_diff_Suc)
    qed
  qed
qed

lemma kept_indices_bounds:
  "best < j \<Longrightarrow> b \<in> set (kept_indices slpc s j best) \<Longrightarrow>
     b = best \<or> (j \<le> b \<and> b < length s)"
proof (induction slpc s j best rule: kept_indices.induct)
  case (1 slpc s j best)
  show ?case
  proof (cases "j < length s")
    case False
    with "1.prems" show ?thesis
      by (simp add: scan_steps)
  next
    case True
    show ?thesis
    proof (cases "duplicate (s ! j) (s ! best)")
      case dup: True
      let ?best' = "if slpc (Qualities (aln_one (s ! j))) > slpc (Qualities (aln_one (s ! best)))
                    then j else best"
      from "1.prems" True dup have "b \<in> set (kept_indices slpc s (Suc j) ?best')"
        by (simp add: scan_steps)
      moreover from "1.prems" have "?best' < Suc j" by simp
      ultimately have "b = ?best' \<or> (Suc j \<le> b \<and> b < length s)"
        using "1.IH"(1) [OF True dup] by blast
      with True show ?thesis by (auto split: if_splits)
    next
      case nodup: False
      from "1.prems" True nodup
      have "b = best \<or> b \<in> set (kept_indices slpc s (Suc j) j)"
        by (simp add: scan_steps)
      with "1.IH"(2) [OF True nodup] True show ?thesis by auto
    qed
  qed
qed

lemma kept_indices_distinct:
  "best < j \<Longrightarrow> distinct (kept_indices slpc s j best)"
proof (induction slpc s j best rule: kept_indices.induct)
  case (1 slpc s j best)
  show ?case
  proof (cases "j < length s")
    case False
    then show ?thesis
      by (simp add: scan_steps)
  next
    case True
    show ?thesis
    proof (cases "duplicate (s ! j) (s ! best)")
      case dup: True
      with "1.IH"(1) [OF True dup] "1.prems" True show ?thesis
        by (simp add: scan_steps)
    next
      case nodup: False
      have "best \<notin> set (kept_indices slpc s (Suc j) j)"
        using kept_indices_bounds [of j "Suc j" best slpc s] "1.prems" by auto
      with "1.IH"(2) [OF True nodup] True nodup show ?thesis
        by (simp add: scan_steps)
    qed
  qed
qed

lemma sorted_wrt_signature:
  assumes "sorted_wrt (\<lambda>a b. \<not> ReadPair_less b a) s"
  shows "sorted_by_signature s"
  unfolding sorted_by_signature_def
proof (intro allI impI)
  fix a b assume ab: "a \<le> b \<and> b < length s"
  show "signature (s ! a) \<le> signature (s ! b)"
  proof (cases "a = b")
    case True
    then show ?thesis by simp
  next
    case False
    with ab have "a < b" "b < length s" by auto
    with assms have "\<not> ReadPair_less (s ! b) (s ! a)"
      by (simp add: sorted_wrt_iff_nth_less)
    then show ?thesis by (simp add: ReadPair_less_iff not_less)
  qed
qed

lemma scan_inv_dup:
  assumes inv: "scan_inv slpc s j best" and j: "j < length s"
    and dup: "signature (s ! j) = signature (s ! best)"
  shows "scan_inv slpc s (Suc j)
           (if slpc (Qualities (aln_one (s ! j))) > slpc (Qualities (aln_one (s ! best)))
            then j else best)"
proof (cases "score slpc (s ! j) > score slpc (s ! best)")
  case True
  have "scan_inv slpc s (Suc j) j"
    unfolding scan_inv_def
  proof (intro conjI allI impI)
    show "j < Suc j" by simp
    show "Suc j \<le> length s" using j by simp
  next
    fix m assume "m < Suc j"
    then show "signature (s ! m) \<le> signature (s ! j)"
      using inv dup by (cases "m = j") (auto simp: scan_inv_def)
  next
    fix m assume m: "m < Suc j" and sig: "signature (s ! m) = signature (s ! j)"
    show "score slpc (s ! m) \<le> score slpc (s ! j)"
    proof (cases "m = j")
      case False
      with m sig dup inv have "score slpc (s ! m) \<le> score slpc (s ! best)"
        by (auto simp: scan_inv_def)
      with True show ?thesis by simp
    qed simp
  next
    fix m assume m: "m < Suc j" and sig: "signature (s ! m) = signature (s ! j)"
      and eq: "score slpc (s ! m) = score slpc (s ! j)"
    show "j \<le> m"
    proof (cases "m = j")
      case False
      with m sig dup inv have "score slpc (s ! m) \<le> score slpc (s ! best)"
        by (auto simp: scan_inv_def)
      with True eq show ?thesis by simp
    qed simp
  qed
  with True show ?thesis by (simp add: score_def)
next
  case False
  have "scan_inv slpc s (Suc j) best"
    unfolding scan_inv_def
  proof (intro conjI allI impI)
    show "best < Suc j" using inv by (simp add: scan_inv_def)
    show "Suc j \<le> length s" using j by simp
  next
    fix m assume "m < Suc j"
    then show "signature (s ! m) \<le> signature (s ! best)"
      using inv dup by (cases "m = j") (auto simp: scan_inv_def)
  next
    fix m assume m: "m < Suc j" and sig: "signature (s ! m) = signature (s ! best)"
    show "score slpc (s ! m) \<le> score slpc (s ! best)"
      using m sig inv False by (cases "m = j") (auto simp: scan_inv_def)
  next
    fix m assume m: "m < Suc j" and sig: "signature (s ! m) = signature (s ! best)"
      and eq: "score slpc (s ! m) = score slpc (s ! best)"
    show "best \<le> m"
      using m sig eq inv by (cases "m = j") (auto simp: scan_inv_def)
  qed
  with False show ?thesis by (simp add: score_def)
qed

lemma scan_inv_new:
  assumes srt: "sorted_by_signature s" and inv: "scan_inv slpc s j best" and j: "j < length s"
    and nodup: "signature (s ! j) \<noteq> signature (s ! best)"
  shows "scan_inv slpc s (Suc j) j" and "first_best slpc s best"
proof -
  from inv have bj: "best < j" by (simp add: scan_inv_def)
  with srt j have "signature (s ! best) \<le> signature (s ! j)"
    by (simp add: sorted_by_signature_def)
  with nodup have lt: "signature (s ! best) < signature (s ! j)" by simp
  have before: "signature (s ! m) < signature (s ! j)" if "m < j" for m
    using inv that lt by (auto simp: scan_inv_def intro: le_less_trans)
  have after: "signature (s ! best) < signature (s ! m)" if "j \<le> m" "m < length s" for m
    using srt that lt by (auto simp: sorted_by_signature_def intro: less_le_trans)
  show "scan_inv slpc s (Suc j) j"
    unfolding scan_inv_def
  proof (intro conjI allI impI)
    show "j < Suc j" by simp
    show "Suc j \<le> length s" using j by simp
  next
    fix m assume "m < Suc j"
    then show "signature (s ! m) \<le> signature (s ! j)"
      using before [of m] by (cases "m = j") auto
  next
    fix m assume "m < Suc j" "signature (s ! m) = signature (s ! j)"
    then have "m = j" using before [of m] by (cases "m = j") auto
    then show "score slpc (s ! m) \<le> score slpc (s ! j)" by simp
  next
    fix m assume "m < Suc j" "signature (s ! m) = signature (s ! j)"
    then have "m = j" using before [of m] by (cases "m = j") auto
    then show "j \<le> m" by simp
  qed
  show "first_best slpc s best"
    unfolding first_best_def
  proof (intro allI impI)
    fix m assume m: "m < length s" and sig: "signature (s ! m) = signature (s ! best)"
    have "m < j" using after [of m] m sig by (cases "m < j") auto
    with inv sig show "score slpc (s ! m) \<le> score slpc (s ! best)
        \<and> (score slpc (s ! m) = score slpc (s ! best) \<longrightarrow> best \<le> m)"
      by (simp add: scan_inv_def)
  qed
qed

lemma scan_inv_done:
  assumes "scan_inv slpc s j best" "length s \<le> j"
  shows "first_best slpc s best"
  using assms by (auto simp: scan_inv_def first_best_def)

lemma kept_indices_first_best:
  "sorted_by_signature s \<Longrightarrow> scan_inv slpc s j best \<Longrightarrow>
     b \<in> set (kept_indices slpc s j best) \<Longrightarrow> first_best slpc s b"
proof (induction slpc s j best rule: kept_indices.induct)
  case (1 slpc s j best)
  show ?case
  proof (cases "j < length s")
    case False
    with "1.prems" scan_inv_done [of slpc s j best] show ?thesis
      by (simp add: scan_steps)
  next
    case True
    show ?thesis
    proof (cases "duplicate (s ! j) (s ! best)")
      case dup: True
      from "1.prems" True dup show ?thesis
        using "1.IH"(1) [OF True dup] scan_inv_dup [of slpc s j best]
        by (simp add: scan_steps duplicate_iff)
    next
      case nodup: False
      from "1.prems" True nodup show ?thesis
        using "1.IH"(2) [OF True nodup] scan_inv_new [of s slpc j best]
        by (auto simp: scan_steps duplicate_iff)
    qed
  qed
qed

lemma kept_indices_cover:
  "best < j \<Longrightarrow> m < length s \<Longrightarrow> m = best \<or> j \<le> m \<Longrightarrow>
     \<exists>b \<in> set (kept_indices slpc s j best). signature (s ! b) = signature (s ! m)"
proof (induction slpc s j best arbitrary: m rule: kept_indices.induct)
  case (1 slpc s j best)
  show ?case
  proof (cases "j < length s")
    case False
    with "1.prems" show ?thesis
      by (auto simp: scan_steps)
  next
    case True
    show ?thesis
    proof (cases "duplicate (s ! j) (s ! best)")
      case dup: True
      let ?best' = "if slpc (Qualities (aln_one (s ! j))) > slpc (Qualities (aln_one (s ! best)))
                    then j else best"
      have sig: "signature (s ! ?best') = signature (s ! best)"
        "signature (s ! j) = signature (s ! best)"
        using dup by (auto simp: duplicate_iff)
      have lt: "?best' < Suc j" using "1.prems" by simp
      show ?thesis
      proof (cases "Suc j \<le> m")
        case True
        with "1.IH"(1) [OF \<open>j < length s\<close> dup lt \<open>m < length s\<close>] \<open>j < length s\<close> dup
        show ?thesis by (simp add: scan_steps)
      next
        case False
        with "1.prems" have "m = best \<or> m = j" by auto
        with sig have same: "signature (s ! m) = signature (s ! ?best')" by auto
        have "?best' < length s" using lt True by simp
        from "1.IH"(1) [OF True dup lt this] obtain b
          where "b \<in> set (kept_indices slpc s (Suc j) ?best')"
            "signature (s ! b) = signature (s ! ?best')" by blast
        with same True dup show ?thesis by (auto simp: scan_steps)
      qed
    next
      case nodup: False
      show ?thesis
      proof (cases "m = best")
        case True
        with \<open>j < length s\<close> nodup show ?thesis by (simp add: scan_steps)
      next
        case False
        with "1.prems" have "m = j \<or> Suc j \<le> m" by auto
        with "1.IH"(2) [OF True nodup _ \<open>m < length s\<close>] True nodup
        show ?thesis by (auto simp: scan_steps)
      qed
    qed
  qed
qed

subsection \<open>One read group\<close>

lemma foldl_keep_pair:
  "foldl (\<lambda>out p. keep_pair p out) (ps, ms, us) kept =
     (ps @ map aln_one (filter (\<lambda>p. \<not> single_ended p) kept),
      ms @ map aln_two (filter (\<lambda>p. \<not> single_ended p) kept),
      us @ map aln_one (filter single_ended kept))"
  by (induction kept arbitrary: ps ms us) (simp_all add: keep_pair_def)

lemma emit_pairs_eq:
  "emit_pairs kept =
     (map aln_one (filter (\<lambda>p. \<not> single_ended p) kept),
      map aln_two (filter (\<lambda>p. \<not> single_ended p) kept),
      map aln_one (filter single_ended kept))"
  by (simp add: emit_pairs_def foldl_keep_pair)

lemma scan_pairs_retained:
  assumes "scan_pairs slpc s 1 0 ([], [], []) d = (b, out, d')" "length s \<noteq> 0"
  shows "keep_pair (s ! b) out = emit_pairs (retained_pairs slpc s)"
    and "d' = d + int (length s) - int (length (retained_pairs slpc s))"
proof -
  from assms(2) have "1 \<le> length s" by (cases s) auto
  from scan_pairs_kept [OF assms(1) this]
  have a: "keep_pair (s ! b) out =
             foldl (\<lambda>out k. keep_pair (s ! k) out) ([], [], []) (kept_indices slpc s 1 0)"
    and b: "d' = d + int (length s - 1) + 1 - int (length (kept_indices slpc s 1 0))"
    by simp_all
  show "keep_pair (s ! b) out = emit_pairs (retained_pairs slpc s)"
    using a assms(2) by (simp add: emit_pairs_def retained_pairs_def foldl_map)
  show "d' = d + int (length s) - int (length (retained_pairs slpc s))"
    using b assms(2) \<open>1 \<le> length s\<close> by (simp add: retained_pairs_def of_nat_diff)
qed

lemma dedup_read_group_result:
  assumes "dedup_read_group slpc sort_pairs use_bam_rgs i st = Inr st'"
  shows "\<exists>unsorted. length (paired_strs_by_rg st ! i) = length (mate_pairs_by_rg st ! i)
     \<and> build_read_pairs use_bam_rgs (rg_to_library st) (paired_strs_by_rg st ! i)
         (mate_pairs_by_rg st ! i) (unpaired_strs_by_rg st ! i) = Inr (unsorted, rg_to_library st')
     \<and> paired_strs_by_rg st' = (paired_strs_by_rg st)
          [i := fst (emit_pairs (retained_pairs slpc (sort_pairs unsorted)))]
     \<and> mate_pairs_by_rg st' = (mate_pairs_by_rg st)
          [i := fst (snd (emit_pairs (retained_pairs slpc (sort_pairs unsorted))))]
     \<and> unpaired_strs_by_rg st' = (unpaired_strs_by_rg st)
          [i := snd (snd (emit_pairs (retained_pairs slpc (sort_pairs unsorted))))]
     \<and> dup_count st' = dup_count st + int (length (sort_pairs unsorted))
          - int (length (retained_pairs slpc (sort_pairs unsorted)))"
proof -
  from assms have len: "length (paired_strs_by_rg st ! i) = length (mate_pairs_by_rg st ! i)"
    by (simp add: dedup_read_group_def split: if_splits)
  from assms len obtain unsorted m' where
    build: "build_read_pairs use_bam_rgs (rg_to_library st) (paired_strs_by_rg st ! i)
         (mate_pairs_by_rg st ! i) (unpaired_strs_by_rg st ! i) = Inr (unsorted, m')"
    by (auto simp: dedup_read_group_def split: sum.splits)
  let ?s = "sort_pairs unsorted"
  show ?thesis
  proof (cases "length ?s = 0")
    case True
    with assms len build show ?thesis
      by (auto simp: dedup_read_group_def Let_def retained_pairs_def emit_pairs_def)
  next
    case False
    obtain b out d' where scan: "scan_pairs slpc ?s 1 0 ([], [], []) (dup_count st) = (b, out, d')"
      by (cases "scan_pairs slpc ?s 1 0 ([], [], []) (dup_count st)") auto
    note r = scan_pairs_retained [OF scan False]
    obtain ps ms us where k: "keep_pair (?s ! b) out = (ps, ms, us)"
      by (cases "keep_pair (?s ! b) out") auto
    from assms len build False scan k
    have "st' = st\<lparr>rg_to_library := m',
                    paired_strs_by_rg := (paired_strs_by_rg st)[i := ps],
                    mate_pairs_by_rg := (mate_pairs_by_rg st)[i := ms],
                    unpaired_strs_by_rg := (unpaired_strs_by_rg st)[i := us],
                    dup_count := d'\<rparr>"
      by (simp add: dedup_read_group_def Let_def)
    moreover from r(1) k have "emit_pairs (retained_pairs slpc ?s) = (ps, ms, us)"
      by simp
    ultimately show ?thesis using r(2) build len by simp
  qed
qed

lemma same_libraries_refl [simp]: "same_libraries u m m"
  by (simp add: same_libraries_def)

lemma same_libraries_trans:
  "same_libraries u m1 m2 \<Longrightarrow> same_libraries u m2 m3 \<Longrightarrow> same_libraries u m1 m3"
  by (simp add: same_libraries_def)

lemma same_libraries_sym: "same_libraries u m1 m2 \<Longrightarrow> same_libraries u m2 m1"
  by (simp add: same_libraries_def)

lemma read_library_same:
  "read_library u a m = Inr (lib, m') \<Longrightarrow> same_libraries u m m'"
  by (auto simp: same_libraries_def library_of_def read_library_def map_subscript_def
      get_library_def split: if_splits option.splits sum.splits)

lemma read_library_step:
  assumes "same_libraries u m1 m2"
  shows "(\<exists>e. read_library u a m1 = Inl e \<and> read_library u a m2 = Inl e)
       \<or> (\<exists>lib m1' m2'. read_library u a m1 = Inr (lib, m1') \<and> read_library u a m2 = Inr (lib, m2')
            \<and> same_libraries u m1' m2')"
proof (cases "read_library u a m1")
  case (Inl e)
  with assms [unfolded same_libraries_def, rule_format, of a] have "library_of u m2 a = Inl e"
    by (simp add: library_of_def)
  then have "read_library u a m2 = Inl e"
    by (auto simp: library_of_def split: sum.splits)
  with Inl show ?thesis by simp
next
  case (Inr r)
  obtain lib m1' where r: "r = (lib, m1')" by (cases r)
  with Inr assms [unfolded same_libraries_def, rule_format, of a]
  have "library_of u m2 a = Inr lib"
    by (simp add: library_of_def)
  then obtain m2' where r2: "read_library u a m2 = Inr (lib, m2')"
    by (auto simp: library_of_def split: sum.splits)
  from Inr r have "same_libraries u m1 m1'" by (simp add: read_library_same)
  moreover from r2 have "same_libraries u m2 m2'" by (simp add: read_library_same)
  ultimately have "same_libraries u m1' m2'"
    using assms by (blast intro: same_libraries_trans same_libraries_sym)
  with Inr r r2 show ?thesis by simp
qed

lemma add_paired_same:
  "same_libraries u m1 m2 \<Longrightarrow> same_outcome u (add_paired u zs m1 acc) (add_paired u zs m2 acc)"
proof (induction zs arbitrary: m1 m2 acc)
  case Nil
  then show ?case by (simp add: same_outcome_def)
next
  case (Cons z zs)
  obtain a b where z: "z = (a, b)" by (cases z)
  from read_library_step [OF Cons.prems, of a] show ?case
  proof (elim disjE exE conjE)
    fix e assume "read_library u a m1 = Inl e" "read_library u a m2 = Inl e"
    with z show ?thesis by (simp add: same_outcome_def)
  next
    fix lib m1' m2'
    assume "read_library u a m1 = Inr (lib, m1')" "read_library u a m2 = Inr (lib, m2')"
      "same_libraries u m1' m2'"
    with z Cons.IH [of m1' m2'] show ?thesis by simp
  qed
qed

lemma add_unpaired_same:
  "same_libraries u m1 m2 \<Longrightarrow> same_outcome u (add_unpaired u as m1 acc) (add_unpaired u as m2 acc)"
proof (induction as arbitrary: m1 m2 acc)
  case Nil
  then show ?case by (simp add: same_outcome_def)
next
  case (Cons a as)
  from read_library_step [OF Cons.prems, of a] show ?case
  proof (elim disjE exE conjE)
    fix e assume "read_library u a m1 = Inl e" "read_library u a m2 = Inl e"
    then show ?thesis by (simp add: same_outcome_def)
  next
    fix lib m1' m2'
    assume "read_library u a m1 = Inr (lib, m1')" "read_library u a m2 = Inr (lib, m2')"
      "same_libraries u m1' m2'"
    with Cons.IH [of m1' m2'] show ?thesis by simp
  qed
qed

lemma add_paired_libs:
  "add_paired u zs m acc = Inr (rps, m') \<Longrightarrow> same_libraries u m m'"
proof (induction zs arbitrary: m acc)
  case Nil
  then show ?case by simp
next
  case (Cons z zs)
  obtain a b where z: "z = (a, b)" by (cases z)
  from Cons.prems z obtain lib m1 where
    r: "read_library u a m = Inr (lib, m1)"
    and rest: "add_paired u zs m1 (acc @ [ReadPair_paired a b lib]) = Inr (rps, m')"
    by (auto split: sum.splits)
  from read_library_same [OF r] Cons.IH [OF rest] show ?case
    by (rule same_libraries_trans)
qed

lemma add_unpaired_libs:
  "add_unpaired u as m acc = Inr (rps, m') \<Longrightarrow> same_libraries u m m'"
proof (induction as arbitrary: m acc)
  case Nil
  then show ?case by simp
next
  case (Cons a as)
  from Cons.prems obtain lib m1 where
    r: "read_library u a m = Inr (lib, m1)"
    and rest: "add_unpaired u as m1 (acc @ [ReadPair_single a lib]) = Inr (rps, m')"
    by (auto split: sum.splits)
  from read_library_same [OF r] Cons.IH [OF rest] show ?case
    by (rule same_libraries_trans)
qed

lemma build_read_pairs_libs:
  "build_read_pairs u m ps ms us = Inr (rps, m') \<Longrightarrow> same_libraries u m m'"
  by (auto simp: build_read_pairs_def split: sum.splits
      intro: same_libraries_trans dest: add_paired_libs add_unpaired_libs)

lemma build_read_pairs_same:
  assumes "same_libraries u m1 m2"
  shows "same_outcome u (build_read_pairs u m1 ps ms us) (build_read_pairs u m2 ps ms us)"
proof (cases "add_paired u (zip ps ms) m1 []")
  case (Inl e)
  with add_paired_same [OF assms, of "zip ps ms" "[]"] show ?thesis
    by (simp add: build_read_pairs_def same_outcome_def)
next
  case (Inr r)
  obtain rps m1' where r: "r = (rps, m1')" by (cases r)
  with Inr add_paired_same [OF assms, of "zip ps ms" "[]"] obtain m2'
    where "add_paired u (zip ps ms) m2 [] = Inr (rps, m2')" "same_libraries u m1' m2'"
    by (auto simp: same_outcome_def)
  with Inr r add_unpaired_same [of u m1' m2' us rps] show ?thesis
    by (simp add: build_read_pairs_def)
qed

lemma build_read_pairs_group:
  assumes "same_libraries u m0 m" "build_read_pairs u m ps ms us = Inr (rps, m')"
  shows "group_read_pairs u m0 ps ms us = rps" and "same_libraries u m0 m'"
    and "\<exists>m''. build_read_pairs u m0 ps ms us = Inr (rps, m'')"
proof -
  from build_read_pairs_same [OF same_libraries_sym [OF assms(1)], of ps ms us] assms(2)
  obtain m'' where b: "build_read_pairs u m0 ps ms us = Inr (rps, m'')"
    and s: "same_libraries u m' m''"
    by (auto simp: same_outcome_def)
  from b show "group_read_pairs u m0 ps ms us = rps" by (simp add: group_read_pairs_def)
  from b show "\<exists>m''. build_read_pairs u m0 ps ms us = Inr (rps, m'')" by blast
  from assms(2) have "same_libraries u m m'" by (rule build_read_pairs_libs)
  with assms(1) show "same_libraries u m0 m'" by (blast intro: same_libraries_trans)
qed

subsection \<open>The loop over the read groups\<close>

lemma dedup_read_group_step:
  assumes d: "dedup_read_group slpc sort_pairs u i st = Inr st'"
    and libs: "same_libraries u m0 (rg_to_library st)"
  shows "same_libraries u m0 (rg_to_library st')"
    and "group_ok u m0 st i"
    and "paired_strs_by_rg st' = (paired_strs_by_rg st)
           [i := fst (emit_pairs (retained_pairs slpc (group_sorted sort_pairs u m0 st i)))]"
    and "mate_pairs_by_rg st' = (mate_pairs_by_rg st)
           [i := fst (snd (emit_pairs (retained_pairs slpc (group_sorted sort_pairs u m0 st i))))]"
    and "unpaired_strs_by_rg st' = (unpaired_strs_by_rg st)
           [i := snd (snd (emit_pairs (retained_pairs slpc (group_sorted sort_pairs u m0 st i))))]"
    and "dup_count st' = dup_count st + int (length (group_sorted sort_pairs u m0 st i))
           - int (length (retained_pairs slpc (group_sorted sort_pairs u m0 st i)))"
proof -
  from dedup_read_group_result [OF d] obtain unsorted where
    len: "length (paired_strs_by_rg st ! i) = length (mate_pairs_by_rg st ! i)"
    and build: "build_read_pairs u (rg_to_library st) (paired_strs_by_rg st ! i)
         (mate_pairs_by_rg st ! i) (unpaired_strs_by_rg st ! i) = Inr (unsorted, rg_to_library st')"
    and out: "paired_strs_by_rg st' = (paired_strs_by_rg st)
          [i := fst (emit_pairs (retained_pairs slpc (sort_pairs unsorted)))]"
      "mate_pairs_by_rg st' = (mate_pairs_by_rg st)
          [i := fst (snd (emit_pairs (retained_pairs slpc (sort_pairs unsorted))))]"
      "unpaired_strs_by_rg st' = (unpaired_strs_by_rg st)
          [i := snd (snd (emit_pairs (retained_pairs slpc (sort_pairs unsorted))))]"
      "dup_count st' = dup_count st + int (length (sort_pairs unsorted))
          - int (length (retained_pairs slpc (sort_pairs unsorted)))"
    by blast
  note g = build_read_pairs_group [OF libs build]
  from g(1) have s: "group_sorted sort_pairs u m0 st i = sort_pairs unsorted"
    by (simp add: group_sorted_def)
  show "same_libraries u m0 (rg_to_library st')" by (rule g(2))
  show "group_ok u m0 st i" using len g(3) unfolding group_ok_def by blast
  show "paired_strs_by_rg st' = (paired_strs_by_rg st)
           [i := fst (emit_pairs (retained_pairs slpc (group_sorted sort_pairs u m0 st i)))]"
    using out(1) s by simp
  show "mate_pairs_by_rg st' = (mate_pairs_by_rg st)
           [i := fst (snd (emit_pairs (retained_pairs slpc (group_sorted sort_pairs u m0 st i))))]"
    using out(2) s by simp
  show "unpaired_strs_by_rg st' = (unpaired_strs_by_rg st)
           [i := snd (snd (emit_pairs (retained_pairs slpc (group_sorted sort_pairs u m0 st i))))]"
    using out(3) s by simp
  show "dup_count st' = dup_count st + int (length (group_sorted sort_pairs u m0 st i))
           - int (length (retained_pairs slpc (group_sorted sort_pairs u m0 st i)))"
    using out(4) s by simp
qed

lemma rg_loop_post:
  "rg_loop slpc sort_pairs u i st = Inr res \<Longrightarrow>
   same_libraries u m0 (rg_to_library st) \<Longrightarrow>
   length (mate_pairs_by_rg st) = length (paired_strs_by_rg st) \<Longrightarrow>
   length (unpaired_strs_by_rg st) = length (paired_strs_by_rg st) \<Longrightarrow>
   loop_post slpc sort_pairs u m0 i st res"
proof (induction slpc sort_pairs u i st rule: rg_loop.induct)
  case (1 slpc sort_pairs u i st)
  let ?n = "length (paired_strs_by_rg st)"
  show ?case
  proof (cases "i < ?n")
    case False
    with "1.prems"(1) have "res = st"
      by (simp add: rg_loop.simps [of slpc sort_pairs u i st])
    with False show ?thesis by (auto simp: loop_post_def)
  next
    case True
    with "1.prems"(1) obtain st' where
      d: "dedup_read_group slpc sort_pairs u i st = Inr st'"
      and rest: "rg_loop slpc sort_pairs u (Suc i) st' = Inr res"
      by (auto simp: rg_loop.simps [of slpc sort_pairs u i st] split: sum.splits)
    note step = dedup_read_group_step [OF d "1.prems"(2)]
    have lens: "length (mate_pairs_by_rg st') = length (paired_strs_by_rg st')"
      "length (unpaired_strs_by_rg st') = length (paired_strs_by_rg st')"
      "length (paired_strs_by_rg st') = ?n"
      using step(3,4,5) "1.prems"(3,4) by simp_all
    from "1.IH" [OF True d rest step(1) lens(1,2)]
    have post: "loop_post slpc sort_pairs u m0 (Suc i) st' res" .
    have other: "group_sorted sort_pairs u m0 st' k = group_sorted sort_pairs u m0 st k"
      "group_ok u m0 st' k = group_ok u m0 st k"
      "paired_strs_by_rg st' ! k = paired_strs_by_rg st ! k"
      "mate_pairs_by_rg st' ! k = mate_pairs_by_rg st ! k"
      "unpaired_strs_by_rg st' ! k = unpaired_strs_by_rg st ! k" if "k \<noteq> i" for k
      using that step(3,4,5) by (simp_all add: group_sorted_def group_ok_def)
    let ?kept = "\<lambda>k. retained_pairs slpc (group_sorted sort_pairs u m0 st k)"
    have at_i: "(paired_strs_by_rg st' ! i, mate_pairs_by_rg st' ! i, unpaired_strs_by_rg st' ! i)
                  = emit_pairs (?kept i)"
      using step(3,4,5) True "1.prems"(3,4) by simp
    have sum_eq: "(\<Sum>k = Suc i..<?n. int (length (group_sorted sort_pairs u m0 st' k))
               - int (length (retained_pairs slpc (group_sorted sort_pairs u m0 st' k))))
        = (\<Sum>k = Suc i..<?n. int (length (group_sorted sort_pairs u m0 st k))
               - int (length (?kept k)))"
      by (rule sum.cong) (simp_all add: other(1))
    show ?thesis
      unfolding loop_post_def
    proof (intro conjI allI impI)
      show "length (paired_strs_by_rg res) = ?n"
        "length (mate_pairs_by_rg res) = length (mate_pairs_by_rg st)"
        "length (unpaired_strs_by_rg res) = length (unpaired_strs_by_rg st)"
        using post lens "1.prems"(3,4) by (simp_all add: loop_post_def)
    next
      fix k assume "k < i"
      then have "k < Suc i" "k \<noteq> i" by simp_all
      with post other [of k]
      show "paired_strs_by_rg res ! k = paired_strs_by_rg st ! k"
        "mate_pairs_by_rg res ! k = mate_pairs_by_rg st ! k"
        "unpaired_strs_by_rg res ! k = unpaired_strs_by_rg st ! k"
        by (simp_all add: loop_post_def)
    next
      fix k assume k: "i \<le> k \<and> k < ?n"
      show "group_ok u m0 st k"
      proof (cases "k = i")
        case True
        with step(2) show ?thesis by simp
      next
        case False
        with k post lens(3) other(2) [of k] show ?thesis by (simp add: loop_post_def)
      qed
      show "(paired_strs_by_rg res ! k, mate_pairs_by_rg res ! k, unpaired_strs_by_rg res ! k)
              = emit_pairs (?kept k)"
      proof (cases "k = i")
        case True
        with post at_i show ?thesis by (simp add: loop_post_def)
      next
        case False
        with k post lens(3) other(1) [of k] show ?thesis by (simp add: loop_post_def)
      qed
    next
      have "dup_count res = dup_count st'
          + (\<Sum>k = Suc i..<?n. int (length (group_sorted sort_pairs u m0 st' k))
               - int (length (retained_pairs slpc (group_sorted sort_pairs u m0 st' k))))"
        using post lens(3) by (simp add: loop_post_def)
      with sum_eq step(6) True
      show "dup_count res = dup_count st
          + (\<Sum>k = i..<?n. int (length (group_sorted sort_pairs u m0 st k)) - int (length (?kept k)))"
        by (simp add: sum.atLeast_Suc_lessThan)
    qed
  qed
qed

subsection \<open>The retained pairs of a sorted vector\<close>

lemma scan_inv_start: "length s \<noteq> 0 \<Longrightarrow> scan_inv slpc s 1 0"
  by (cases s) (auto simp: scan_inv_def)

lemma kept_indices_start_bounds:
  assumes "length s \<noteq> 0" "b \<in> set (kept_indices slpc s 1 0)"
  shows "b < length s"
  using kept_indices_bounds [of 0 1 b slpc s] assms by auto

lemma kept_indices_start_first_best:
  assumes "sorted_by_signature s" "length s \<noteq> 0" "b \<in> set (kept_indices slpc s 1 0)"
  shows "first_best slpc s b"
  using kept_indices_first_best [OF assms(1) scan_inv_start [OF assms(2)] assms(3)] .

lemma first_best_unique:
  assumes "first_best slpc s b" "first_best slpc s c" "b < length s" "c < length s"
    "signature (s ! b) = signature (s ! c)"
  shows "b = c"
proof -
  from assms(1,4,5) have 1: "score slpc (s ! c) \<le> score slpc (s ! b)"
    "score slpc (s ! c) = score slpc (s ! b) \<longrightarrow> b \<le> c"
    by (simp_all add: first_best_def)
  from assms(2,3,5) have 2: "score slpc (s ! b) \<le> score slpc (s ! c)"
    "score slpc (s ! b) = score slpc (s ! c) \<longrightarrow> c \<le> b"
    by (simp_all add: first_best_def)
  from 1 2 show ?thesis by auto
qed

lemma retained_distinct:
  assumes "sorted_by_signature s"
  shows "distinct (map signature (retained_pairs slpc s))"
proof (cases "length s = 0")
  case True
  then show ?thesis by (simp add: retained_pairs_def)
next
  case False
  let ?ks = "kept_indices slpc s 1 0"
  have "inj_on (\<lambda>k. signature (s ! k)) (set ?ks)"
  proof (rule inj_onI)
    fix b c assume "b \<in> set ?ks" "c \<in> set ?ks" "signature (s ! b) = signature (s ! c)"
    then show "b = c"
      using first_best_unique [of slpc s b c]
        kept_indices_start_first_best [OF assms False, of _ slpc]
        kept_indices_start_bounds [OF False, of _ slpc] by blast
  qed
  moreover have "distinct ?ks" by (rule kept_indices_distinct) simp
  ultimately have "distinct (map (\<lambda>k. signature (s ! k)) ?ks)"
    by (simp add: distinct_map)
  with False show ?thesis by (simp add: retained_pairs_def comp_def)
qed

lemma retained_subset: "set (retained_pairs slpc s) \<subseteq> set s"
proof (cases "length s = 0")
  case True
  then show ?thesis by (simp add: retained_pairs_def)
next
  case False
  then show ?thesis
    using kept_indices_start_bounds [OF False, of _ slpc] by (auto simp: retained_pairs_def)
qed

lemma retained_signatures:
  "signature ` set (retained_pairs slpc s) = signature ` set s"
proof (cases "length s = 0")
  case True
  then show ?thesis by (simp add: retained_pairs_def)
next
  case False
  show ?thesis
  proof
    show "signature ` set (retained_pairs slpc s) \<subseteq> signature ` set s"
      using retained_subset [of slpc s] by blast
    show "signature ` set s \<subseteq> signature ` set (retained_pairs slpc s)"
    proof
      fix x assume "x \<in> signature ` set s"
      then obtain m where m: "m < length s" "x = signature (s ! m)"
        by (auto simp: in_set_conv_nth)
      then have "m = 0 \<or> 1 \<le> m" by auto
      from kept_indices_cover [OF _ m(1) this, of slpc] obtain b
        where "b \<in> set (kept_indices slpc s 1 0)" "signature (s ! b) = signature (s ! m)"
        by auto
      then have "signature (s ! m) \<in> (\<lambda>k. signature (s ! k)) ` set (kept_indices slpc s 1 0)"
        by (metis image_eqI)
      with m False show "x \<in> signature ` set (retained_pairs slpc s)"
        by (simp add: retained_pairs_def image_comp comp_def)
    qed
  qed
qed

lemma retained_length:
  assumes "sorted_by_signature s"
  shows "length (retained_pairs slpc s) = card (signature ` set s)"
proof -
  have "card (signature ` set s) = card (set (map signature (retained_pairs slpc s)))"
    by (simp add: retained_signatures)
  also have "\<dots> = length (map signature (retained_pairs slpc s))"
    by (rule distinct_card) (rule retained_distinct [OF assms])
  finally show ?thesis by simp
qed

lemma contract_sorted:
  "std_sort_contract sort_pairs \<Longrightarrow> sorted_by_signature (sort_pairs xs)"
  by (simp add: std_sort_contract_def sorted_wrt_signature)

lemma contract_set: "std_sort_contract sort_pairs \<Longrightarrow> set (sort_pairs xs) = set xs"
  by (metis std_sort_contract_def set_mset_mset)

lemma contract_length: "std_sort_contract sort_pairs \<Longrightarrow> length (sort_pairs xs) = length xs"
  by (metis std_sort_contract_def size_mset)

subsection \<open>The whole function\<close>

lemma remove_pcr_duplicates_post:
  assumes "remove_pcr_duplicates slpc sort_pairs u m paired mates unpaired = Inr res"
  shows "length mates = length paired" "length unpaired = length paired"
    and "loop_post slpc sort_pairs u m 0
           \<lparr>rg_to_library = m, paired_strs_by_rg = paired, mate_pairs_by_rg = mates,
            unpaired_strs_by_rg = unpaired, dup_count = 0\<rparr> res"
proof -
  from assms show l: "length mates = length paired" "length unpaired = length paired"
    by (simp_all add: remove_pcr_duplicates_def split: if_splits)
  from assms l have "rg_loop slpc sort_pairs u 0
           \<lparr>rg_to_library = m, paired_strs_by_rg = paired, mate_pairs_by_rg = mates,
            unpaired_strs_by_rg = unpaired, dup_count = 0\<rparr> = Inr res"
    by (simp add: remove_pcr_duplicates_def)
  from rg_loop_post [OF this, of m] l
  show "loop_post slpc sort_pairs u m 0
           \<lparr>rg_to_library = m, paired_strs_by_rg = paired, mate_pairs_by_rg = mates,
            unpaired_strs_by_rg = unpaired, dup_count = 0\<rparr> res"
    by simp
qed

lemma remove_pcr_duplicates_group:
  assumes "remove_pcr_duplicates slpc sort_pairs u m paired mates unpaired = Inr res"
    and "i < length paired"
  shows "length (paired ! i) = length (mates ! i)"
    and "\<exists>rps m'. build_read_pairs u m (paired ! i) (mates ! i) (unpaired ! i) = Inr (rps, m')"
    and "(paired_strs_by_rg res ! i, mate_pairs_by_rg res ! i, unpaired_strs_by_rg res ! i)
           = emit_pairs (retained_pairs slpc
               (sort_pairs (group_read_pairs u m (paired ! i) (mates ! i) (unpaired ! i))))"
  using remove_pcr_duplicates_post(3) [OF assms(1)] assms(2)
  by (simp_all add: loop_post_def group_ok_def group_sorted_def)

lemma remove_pcr_duplicates_count:
  assumes "remove_pcr_duplicates slpc sort_pairs u m paired mates unpaired = Inr res"
  shows "dup_count res =
     (\<Sum>i = 0..<length paired.
        int (length (sort_pairs (group_read_pairs u m (paired ! i) (mates ! i) (unpaired ! i))))
        - int (length (retained_pairs slpc
            (sort_pairs (group_read_pairs u m (paired ! i) (mates ! i) (unpaired ! i))))))"
  using remove_pcr_duplicates_post(3) [OF assms(1)]
  by (simp add: loop_post_def group_sorted_def)

subsection \<open>The read pairs of a group\<close>

lemma add_paired_elems:
  "add_paired u zs m acc = Inr (rps, m') \<Longrightarrow>
     length rps = length acc + length zs
     \<and> (\<forall>p \<in> set rps. p \<in> set acc \<or> (\<exists>a b lib. (a, b) \<in> set zs \<and> p = ReadPair_paired a b lib))"
proof (induction zs arbitrary: m acc)
  case Nil
  then show ?case by auto
next
  case (Cons z zs)
  obtain a b where z: "z = (a, b)" by (cases z)
  from Cons.prems z obtain lib m1 where
    rest: "add_paired u zs m1 (acc @ [ReadPair_paired a b lib]) = Inr (rps, m')"
    by (auto split: sum.splits)
  from Cons.IH [OF rest] z show ?case by auto
qed

lemma add_unpaired_elems:
  "add_unpaired u as m acc = Inr (rps, m') \<Longrightarrow>
     length rps = length acc + length as
     \<and> (\<forall>p \<in> set rps. p \<in> set acc \<or> (\<exists>a lib. a \<in> set as \<and> p = ReadPair_single a lib))"
proof (induction as arbitrary: m acc)
  case Nil
  then show ?case by auto
next
  case (Cons a as)
  from Cons.prems obtain lib m1 where
    rest: "add_unpaired u as m1 (acc @ [ReadPair_single a lib]) = Inr (rps, m')"
    by (auto split: sum.splits)
  from Cons.IH [OF rest] show ?case by auto
qed

lemma build_read_pairs_elems:
  assumes "build_read_pairs u m ps ms us = Inr (rps, m')"
  shows "length rps = length (zip ps ms) + length us"
    and "p \<in> set rps \<Longrightarrow>
           (\<exists>a b lib. (a, b) \<in> set (zip ps ms) \<and> p = ReadPair_paired a b lib)
           \<or> (\<exists>a lib. a \<in> set us \<and> p = ReadPair_single a lib)"
proof -
  from assms obtain r1 m1 where
    1: "add_paired u (zip ps ms) m [] = Inr (r1, m1)" and 2: "add_unpaired u us m1 r1 = Inr (rps, m')"
    by (auto simp: build_read_pairs_def split: sum.splits)
  note a = add_paired_elems [OF 1] and b = add_unpaired_elems [OF 2]
  from a b show "length rps = length (zip ps ms) + length us" by simp
  assume "p \<in> set rps"
  with a b show "(\<exists>a b lib. (a, b) \<in> set (zip ps ms) \<and> p = ReadPair_paired a b lib)
           \<or> (\<exists>a lib. a \<in> set us \<and> p = ReadPair_single a lib)"
    by fastforce
qed

lemma single_ended_single [simp]: "single_ended (ReadPair_single a lib)"
  by (simp add: single_ended_def ReadPair_single_def)

lemma aln_paired [simp]:
  "aln_one (ReadPair_paired a b lib) = a" "aln_two (ReadPair_paired a b lib) = b"
  by (simp_all add: aln_one_def aln_two_def ReadPair_paired_def)

lemma read_library_error: "read_library u a m = Inl e \<Longrightarrow> library_error e"
  by (auto simp: read_library_def get_library_def split: if_splits option.splits sum.splits)

lemma add_paired_error: "add_paired u zs m acc = Inl e \<Longrightarrow> library_error e"
proof (induction zs arbitrary: m acc)
  case Nil
  then show ?case by simp
next
  case (Cons z zs)
  obtain a b where z: "z = (a, b)" by (cases z)
  show ?case
  proof (cases "read_library u a m")
    case (Inl e')
    with Cons.prems z show ?thesis by (auto dest: read_library_error)
  next
    case (Inr r)
    with Cons.prems z Cons.IH show ?thesis by (cases r) auto
  qed
qed

lemma add_unpaired_error: "add_unpaired u as m acc = Inl e \<Longrightarrow> library_error e"
proof (induction as arbitrary: m acc)
  case Nil
  then show ?case by simp
next
  case (Cons a as)
  show ?case
  proof (cases "read_library u a m")
    case (Inl e')
    with Cons.prems show ?thesis by (auto dest: read_library_error)
  next
    case (Inr r)
    with Cons.prems Cons.IH show ?thesis by (cases r) auto
  qed
qed

lemma build_read_pairs_error: "build_read_pairs u m ps ms us = Inl e \<Longrightarrow> library_error e"
  by (auto simp: build_read_pairs_def split: sum.splits
      dest: add_paired_error add_unpaired_error)

text \<open>With read-group tags in use, a successful build means that every read had a library.\<close>

lemma add_paired_tags:
  "add_paired True zs m acc = Inr (rps, m') \<Longrightarrow> (a, b) \<in> set zs \<Longrightarrow>
     \<exists>lib. get_library a m = Inr lib"
proof (induction zs arbitrary: acc)
  case Nil
  then show ?case by simp
next
  case (Cons z zs)
  obtain a' b' where z: "z = (a', b')" by (cases z)
  from Cons.prems(1) z obtain lib where
    r: "get_library a' m = Inr lib"
    and rest: "add_paired True zs m (acc @ [ReadPair_paired a' b' lib]) = Inr (rps, m')"
    by (auto simp: read_library_def split: sum.splits)
  from Cons.prems(2) z r Cons.IH [OF rest] show ?case by auto
qed

lemma add_unpaired_tags:
  "add_unpaired True as m acc = Inr (rps, m') \<Longrightarrow> a \<in> set as \<Longrightarrow>
     \<exists>lib. get_library a m = Inr lib"
proof (induction as arbitrary: acc)
  case Nil
  then show ?case by simp
next
  case (Cons a' as)
  from Cons.prems(1) obtain lib where
    r: "get_library a' m = Inr lib"
    and rest: "add_unpaired True as m (acc @ [ReadPair_single a' lib]) = Inr (rps, m')"
    by (auto simp: read_library_def split: sum.splits)
  from Cons.prems(2) r Cons.IH [OF rest] show ?case by auto
qed

lemma add_paired_tags_map: "add_paired True zs m acc = Inr (rps, m') \<Longrightarrow> m' = m"
  by (induction zs arbitrary: acc) (auto simp: read_library_def split: sum.splits)

lemma build_read_pairs_tags:
  assumes "build_read_pairs True m ps ms us = Inr (rps, m')" "length ps = length ms"
    "a \<in> set ps \<union> set us"
  shows "\<exists>lib. get_library a m = Inr lib"
proof -
  from assms(1) obtain r1 m1 where
    1: "add_paired True (zip ps ms) m [] = Inr (r1, m1)"
    and 2: "add_unpaired True us m1 r1 = Inr (rps, m')"
    by (auto simp: build_read_pairs_def split: sum.splits)
  from add_paired_tags_map [OF 1] have m1: "m1 = m" .
  from assms(3) show ?thesis
  proof
    assume "a \<in> set ps"
    with assms(2) obtain b where "(a, b) \<in> set (zip ps ms)"
      by (metis in_set_impl_in_set_zip1)
    with add_paired_tags [OF 1] show ?thesis by blast
  next
    assume "a \<in> set us"
    with add_unpaired_tags [OF 2] m1 show ?thesis by blast
  qed
qed

text \<open>The error of a failed run with well-formed vectors.\<close>

lemma rg_loop_error:
  "rg_loop slpc sort_pairs u i st = Inl e \<Longrightarrow>
   length (mate_pairs_by_rg st) = length (paired_strs_by_rg st) \<Longrightarrow>
   (\<forall>k. i \<le> k \<and> k < length (paired_strs_by_rg st) \<longrightarrow>
      length (paired_strs_by_rg st ! k) = length (mate_pairs_by_rg st ! k)) \<Longrightarrow>
   library_error e"
proof (induction slpc sort_pairs u i st rule: rg_loop.induct)
  case (1 slpc sort_pairs u i st)
  let ?n = "length (paired_strs_by_rg st)"
  show ?case
  proof (cases "i < ?n")
    case False
    with "1.prems"(1) show ?thesis by (simp add: rg_loop.simps [of slpc sort_pairs u i st])
  next
    case True
    show ?thesis
    proof (cases "dedup_read_group slpc sort_pairs u i st")
      case (Inl e')
      with "1.prems"(1) True have "e' = e"
        by (simp add: rg_loop.simps [of slpc sort_pairs u i st])
      with Inl "1.prems"(3) True show ?thesis
        by (auto simp: dedup_read_group_def Let_def split: if_splits sum.splits prod.splits
            dest: build_read_pairs_error)
    next
      case (Inr st')
      with "1.prems"(1) True have rest: "rg_loop slpc sort_pairs u (Suc i) st' = Inl e"
        by (simp add: rg_loop.simps [of slpc sort_pairs u i st])
      note r = dedup_read_group_result [OF Inr]
      from r obtain x y where
        v: "paired_strs_by_rg st' = (paired_strs_by_rg st)[i := x]"
           "mate_pairs_by_rg st' = (mate_pairs_by_rg st)[i := y]"
        by blast
      have "length (mate_pairs_by_rg st') = length (paired_strs_by_rg st')"
        using v "1.prems"(2) by simp
      moreover have "\<forall>k. Suc i \<le> k \<and> k < length (paired_strs_by_rg st') \<longrightarrow>
          length (paired_strs_by_rg st' ! k) = length (mate_pairs_by_rg st' ! k)"
        using v "1.prems"(3) by auto
      ultimately show ?thesis using "1.IH" [OF True Inr rest] by blast
    qed
  qed
qed

text \<open>A kept pair is in the output vectors, and each kept pair is one output entry.\<close>

lemma emit_pairs_member:
  assumes "p \<in> set kept"
    and "(ps, ms, us) = emit_pairs kept"
  shows "single_ended p \<longrightarrow> aln_one p \<in> set us"
    and "\<not> single_ended p \<longrightarrow> (aln_one p, aln_two p) \<in> set (zip ps ms)"
proof -
  from assms(2) have ps: "ps = map aln_one (filter (\<lambda>p. \<not> single_ended p) kept)"
    and ms: "ms = map aln_two (filter (\<lambda>p. \<not> single_ended p) kept)"
    and us: "us = map aln_one (filter single_ended kept)"
    by (simp_all add: emit_pairs_eq)
  show "single_ended p \<longrightarrow> aln_one p \<in> set us"
    using assms(1) us by auto
  have "zip ps ms = map (\<lambda>p. (aln_one p, aln_two p)) (filter (\<lambda>p. \<not> single_ended p) kept)"
    unfolding ps ms by (simp add: zip_map_map zip_same_conv_map)
  then show "\<not> single_ended p \<longrightarrow> (aln_one p, aln_two p) \<in> set (zip ps ms)"
    using assms(1) by auto
qed

lemma emit_pairs_length:
  assumes "(ps, ms, us) = emit_pairs kept"
  shows "length ps + length us = length kept"
proof -
  from assms have "length ps = length (filter (\<lambda>p. \<not> single_ended p) kept)"
    "length us = length (filter single_ended kept)"
    by (simp_all add: emit_pairs_eq)
  then show ?thesis
    using sum_length_filter_compl [of single_ended kept] by simp
qed

subsection \<open>When the function returns\<close>

text \<open>Without \<open>use_bam_rgs\<close> no lookup fails: for vectors of consistent sizes the function
  returns.\<close>

lemma add_paired_by_filename:
  "\<exists>rps m'. add_paired False zs m acc = Inr (rps, m')"
  by (induction zs arbitrary: m acc) (auto simp: read_library_def split: prod.splits)

lemma add_unpaired_by_filename:
  "\<exists>rps m'. add_unpaired False as m acc = Inr (rps, m')"
  by (induction as arbitrary: m acc) (auto simp: read_library_def split: prod.splits)

lemma build_read_pairs_by_filename:
  "\<exists>rps m'. build_read_pairs False m ps ms us = Inr (rps, m')"
proof -
  obtain r1 m1 where "add_paired False (zip ps ms) m [] = Inr (r1, m1)"
    using add_paired_by_filename by blast
  moreover obtain rps m' where "add_unpaired False us m1 r1 = Inr (rps, m')"
    using add_unpaired_by_filename by blast
  ultimately show ?thesis by (simp add: build_read_pairs_def)
qed

lemma dedup_read_group_by_filename:
  assumes "length (paired_strs_by_rg st ! i) = length (mate_pairs_by_rg st ! i)"
  shows "\<exists>st'. dedup_read_group slpc sort_pairs False i st = Inr st'"
proof -
  obtain rps m' where "build_read_pairs False (rg_to_library st) (paired_strs_by_rg st ! i)
      (mate_pairs_by_rg st ! i) (unpaired_strs_by_rg st ! i) = Inr (rps, m')"
    using build_read_pairs_by_filename by blast
  with assms show ?thesis
    by (simp add: dedup_read_group_def Let_def split: prod.splits)
qed

lemma rg_loop_by_filename:
  "length (mate_pairs_by_rg st) = length (paired_strs_by_rg st) \<Longrightarrow>
   (\<forall>k. i \<le> k \<and> k < length (paired_strs_by_rg st) \<longrightarrow>
      length (paired_strs_by_rg st ! k) = length (mate_pairs_by_rg st ! k)) \<Longrightarrow>
   \<exists>res. rg_loop slpc sort_pairs False i st = Inr res"
proof (induction slpc sort_pairs "False" i st rule: rg_loop.induct)
  case (1 slpc sort_pairs i st)
  let ?n = "length (paired_strs_by_rg st)"
  show ?case
  proof (cases "i < ?n")
    case False
    then show ?thesis by (simp add: rg_loop.simps [of slpc sort_pairs False i st])
  next
    case True
    with "1.prems"(2) obtain st' where d: "dedup_read_group slpc sort_pairs False i st = Inr st'"
      using dedup_read_group_by_filename [of st i slpc sort_pairs] by auto
    from dedup_read_group_result [OF d] obtain x y where
      v: "paired_strs_by_rg st' = (paired_strs_by_rg st)[i := x]"
         "mate_pairs_by_rg st' = (mate_pairs_by_rg st)[i := y]"
      by blast
    have "length (mate_pairs_by_rg st') = length (paired_strs_by_rg st')"
      using v "1.prems"(1) by simp
    moreover have "\<forall>k. Suc i \<le> k \<and> k < length (paired_strs_by_rg st') \<longrightarrow>
          length (paired_strs_by_rg st' ! k) = length (mate_pairs_by_rg st' ! k)"
      using v "1.prems"(2) by auto
    ultimately obtain res where "rg_loop slpc sort_pairs False (Suc i) st' = Inr res"
      using "1.hyps" [OF True d] by blast
    with True d show ?thesis by (simp add: rg_loop.simps [of slpc sort_pairs False i st])
  qed
qed

lemma remove_pcr_duplicates_by_filename_returns:
  assumes "length mates = length paired" "length unpaired = length paired"
    and "\<forall>k<length paired. length (paired ! k) = length (mates ! k)"
  shows "\<exists>res. remove_pcr_duplicates slpc sort_pairs False m paired mates unpaired = Inr res"
  using assms
    rg_loop_by_filename [of "\<lparr>rg_to_library = m, paired_strs_by_rg = paired,
      mate_pairs_by_rg = mates, unpaired_strs_by_rg = unpaired, dup_count = 0\<rparr>" 0 slpc sort_pairs]
  by (simp add: remove_pcr_duplicates_def)

subsection \<open>The examples\<close>

lemmas example_defs = example_read_def example_region_def example_collaborators_def
  example_processor_def example_alignments_def

lemma example_sort_contract: "std_sort_contract example_sort"
  unfolding std_sort_contract_def example_sort_def
proof (intro allI conjI)
  fix xs :: "ReadPair list"
  show "mset (sort_key signature xs) = mset xs" by simp
  have "sorted (map signature (sort_key signature xs))" by (rule sorted_sort_key)
  then show "sorted_wrt (\<lambda>a b. \<not> ReadPair_less b a) (sort_key signature xs)"
    by (simp add: sorted_map ReadPair_less_iff not_less)
qed

lemmas eval_defs = remove_pcr_duplicates_def dedup_read_group_def build_read_pairs_def
  read_library_def get_library_def map_subscript_def keep_pair_def single_ended_def
  aln_one_def aln_two_def ReadPair_paired_def ReadPair_single_def duplicate_def
  string_compare_def signature_def example_score_def example_sort_def example_libraries_def
  example_paired_def example_mates_def example_unpaired_def example_read_def
  default_BamAlignment_def

lemma example_run:
  "remove_pcr_duplicates example_score example_sort False example_libraries
      example_paired example_mates example_unpaired
   = Inr \<lparr>rg_to_library = example_libraries,
           paired_strs_by_rg = [[example_read ''p2'' 100 ''#I'']],
           mate_pairs_by_rg = [[example_read ''m2'' 300 ''II'']],
           unpaired_strs_by_rg = [[example_read ''u1'' 150 ''II'']],
           dup_count = 1\<rparr>"
  by (simp add: eval_defs rg_loop.simps scan_pairs.simps)

lemma example_group_sorted:
  "example_sort (group_read_pairs False example_libraries
      (example_paired ! 0) (example_mates ! 0) (example_unpaired ! 0)) = example_sorted"
  by (simp add: eval_defs group_read_pairs_def example_sorted_def)

lemma example_retained:
  "retained_pairs example_score example_sorted = [example_sorted ! 0, example_sorted ! 2]"
  by (simp add: retained_pairs_def kept_indices.simps example_sorted_def eval_defs)

section \<open>The claims\<close>

text \<open>
  \<^bold>\<open>C1.\<close> After \<open>remove_pcr_duplicates\<close> has returned, the three output vectors of
  every read group \<open>i\<close> are exactly what keeping the retained read pairs one after the
  other produces (\<open>emit_pairs\<close>: a single-ended pair goes to the unpaired vector, any
  other to the paired vector with its mate), and no two of the retained read pairs have
  the same (library, min fragment start, max fragment start) signature. The retained
  pairs are those the scan keeps from the sorted read pairs of the group; the signature is
  the one the \<^verbatim>\<open>ReadPair\<close> object carries.
\<close>

theorem retained_signatures_distinct:
  assumes "remove_pcr_duplicates slpc sort_pairs use_bam_rgs m paired mates unpaired = Inr res"
    and "std_sort_contract sort_pairs"
    and "i < length paired"
  shows "(paired_strs_by_rg res ! i, mate_pairs_by_rg res ! i, unpaired_strs_by_rg res ! i)
           = emit_pairs (retained_pairs slpc (sort_pairs
               (group_read_pairs use_bam_rgs m (paired ! i) (mates ! i) (unpaired ! i))))
       \<and> distinct (map signature (retained_pairs slpc (sort_pairs
               (group_read_pairs use_bam_rgs m (paired ! i) (mates ! i) (unpaired ! i)))))"
  using remove_pcr_duplicates_group(3) [OF assms(1,3)]
    retained_distinct [OF contract_sorted [OF assms(2)]]
  by simp

text \<open>The theorem at the example inputs.\<close>

theorem retained_signatures_distinct_witness:
  "std_sort_contract example_sort
   \<and> 0 < length example_paired
   \<and> remove_pcr_duplicates example_score example_sort False example_libraries
        example_paired example_mates example_unpaired
      = Inr \<lparr>rg_to_library = example_libraries,
              paired_strs_by_rg = [[example_read ''p2'' 100 ''#I'']],
              mate_pairs_by_rg = [[example_read ''m2'' 300 ''II'']],
              unpaired_strs_by_rg = [[example_read ''u1'' 150 ''II'']],
              dup_count = 1\<rparr>
   \<and> map signature (retained_pairs example_score example_sorted)
       = [(''lib1'', - 1, 150), (''lib1'', 100, 300)]
   \<and> distinct (map signature (retained_pairs example_score example_sorted))"
proof -
  have i: "0 < length example_paired" by (simp add: example_paired_def)
  have sigs: "map signature (retained_pairs example_score example_sorted)
       = [(''lib1'', - 1, 150), (''lib1'', 100, 300)]"
    by (simp add: example_retained) (simp add: example_sorted_def eval_defs)
  have "distinct (map signature (retained_pairs example_score example_sorted))"
    using retained_signatures_distinct [OF example_run example_sort_contract i]
    unfolding example_group_sorted by blast
  with example_sort_contract i example_run sigs show ?thesis by blast
qed

text \<open>
  \<^bold>\<open>C2.\<close> Let \<open>s\<close> be the sorted read pairs of read group \<open>i\<close>. The output vectors of
  the group hold one entry per duplicate set of \<open>s\<close> (paired and unpaired entries together
  are as many as the signatures of \<open>s\<close>). For every index \<open>k\<close> of \<open>s\<close>, the duplicate set
  of \<open>s ! k\<close> (all pairs of \<open>s\<close> with its signature, a maximal run of \<open>s\<close>) has a pair
  \<open>s ! b\<close> whose reads are in the output: its primary read in the unpaired vector if it is
  single-ended, otherwise its primary read and its mate at one index of the paired and
  mate vectors. It is the only retained pair of the set; the score of its primary read is
  maximal in the set, and \<open>b\<close> is the least index of the set with that score.
\<close>

theorem best_pair_retained:
  assumes run: "remove_pcr_duplicates slpc sort_pairs use_bam_rgs m paired mates unpaired = Inr res"
    and contract: "std_sort_contract sort_pairs"
    and i: "i < length paired"
    and s: "s = sort_pairs (group_read_pairs use_bam_rgs m (paired ! i) (mates ! i) (unpaired ! i))"
    and k: "k < length s"
  shows "(paired_strs_by_rg res ! i, mate_pairs_by_rg res ! i, unpaired_strs_by_rg res ! i)
           = emit_pairs (retained_pairs slpc s)
       \<and> length (paired_strs_by_rg res ! i) + length (unpaired_strs_by_rg res ! i)
           = card (signature ` set s)
       \<and> (\<exists>b<length s. duplicate (s ! b) (s ! k)
            \<and> (single_ended (s ! b) \<longrightarrow> aln_one (s ! b) \<in> set (unpaired_strs_by_rg res ! i))
            \<and> (\<not> single_ended (s ! b) \<longrightarrow>
                  (aln_one (s ! b), aln_two (s ! b))
                    \<in> set (zip (paired_strs_by_rg res ! i) (mate_pairs_by_rg res ! i)))
            \<and> s ! b \<in> set (retained_pairs slpc s)
            \<and> (\<forall>p \<in> set (retained_pairs slpc s). duplicate p (s ! k) \<longrightarrow> p = s ! b)
            \<and> (\<forall>k'<length s. duplicate (s ! k') (s ! k) \<longrightarrow>
                  slpc (Qualities (aln_one (s ! k'))) \<le> slpc (Qualities (aln_one (s ! b)))
                  \<and> (slpc (Qualities (aln_one (s ! k'))) = slpc (Qualities (aln_one (s ! b)))
                       \<longrightarrow> b \<le> k')))"
proof -
  from k have ne: "length s \<noteq> 0" by auto
  have srt: "sorted_by_signature s" unfolding s by (rule contract_sorted [OF contract])
  have out: "(paired_strs_by_rg res ! i, mate_pairs_by_rg res ! i, unpaired_strs_by_rg res ! i)
           = emit_pairs (retained_pairs slpc s)"
    unfolding s by (rule remove_pcr_duplicates_group(3) [OF run i])
  have count: "length (paired_strs_by_rg res ! i) + length (unpaired_strs_by_rg res ! i)
           = card (signature ` set s)"
    using emit_pairs_length [OF out] retained_length [OF srt, of slpc] by simp
  from k have "k = 0 \<or> 1 \<le> k" by auto
  from kept_indices_cover [OF _ k this, of slpc] obtain b
    where b: "b \<in> set (kept_indices slpc s 1 0)" and sig: "signature (s ! b) = signature (s ! k)"
    by auto
  have bl: "b < length s" by (rule kept_indices_start_bounds [OF ne b])
  have fb: "first_best slpc s b" by (rule kept_indices_start_first_best [OF srt ne b])
  have mem: "s ! b \<in> set (retained_pairs slpc s)"
    using b ne by (simp add: retained_pairs_def)
  note in_out = emit_pairs_member [OF mem out]
  have uniq: "p = s ! b" if "p \<in> set (retained_pairs slpc s)" "duplicate p (s ! k)" for p
  proof -
    from retained_distinct [OF srt, of slpc]
    have "inj_on signature (set (retained_pairs slpc s))" by (simp add: distinct_map)
    moreover from that(2) sig have "signature p = signature (s ! b)" by (simp add: duplicate_iff)
    ultimately show ?thesis using that(1) mem by (auto dest: inj_onD)
  qed
  have best: "slpc (Qualities (aln_one (s ! k'))) \<le> slpc (Qualities (aln_one (s ! b)))
                \<and> (slpc (Qualities (aln_one (s ! k'))) = slpc (Qualities (aln_one (s ! b)))
                       \<longrightarrow> b \<le> k')"
    if "k' < length s" "duplicate (s ! k') (s ! k)" for k'
    using fb that sig by (simp add: first_best_def duplicate_iff score_def)
  have "\<exists>b<length s. duplicate (s ! b) (s ! k)
            \<and> (single_ended (s ! b) \<longrightarrow> aln_one (s ! b) \<in> set (unpaired_strs_by_rg res ! i))
            \<and> (\<not> single_ended (s ! b) \<longrightarrow>
                  (aln_one (s ! b), aln_two (s ! b))
                    \<in> set (zip (paired_strs_by_rg res ! i) (mate_pairs_by_rg res ! i)))
            \<and> s ! b \<in> set (retained_pairs slpc s)
            \<and> (\<forall>p \<in> set (retained_pairs slpc s). duplicate p (s ! k) \<longrightarrow> p = s ! b)
            \<and> (\<forall>k'<length s. duplicate (s ! k') (s ! k) \<longrightarrow>
                  slpc (Qualities (aln_one (s ! k'))) \<le> slpc (Qualities (aln_one (s ! b)))
                  \<and> (slpc (Qualities (aln_one (s ! k'))) = slpc (Qualities (aln_one (s ! b)))
                       \<longrightarrow> b \<le> k'))"
  proof (intro exI [of _ b] conjI ballI allI)
    show "b < length s" by (rule bl)
    show "duplicate (s ! b) (s ! k)" using sig by (simp only: duplicate_iff)
    show "single_ended (s ! b) \<longrightarrow> aln_one (s ! b) \<in> set (unpaired_strs_by_rg res ! i)"
      by (rule in_out(1))
    show "\<not> single_ended (s ! b) \<longrightarrow>
                  (aln_one (s ! b), aln_two (s ! b))
                    \<in> set (zip (paired_strs_by_rg res ! i) (mate_pairs_by_rg res ! i))"
      by (rule in_out(2))
    show "s ! b \<in> set (retained_pairs slpc s)" by (rule mem)
  next
    fix p assume "p \<in> set (retained_pairs slpc s)"
    then show "duplicate p (s ! k) \<longrightarrow> p = s ! b" using uniq by blast
  next
    fix k'
    show "k' < length s \<longrightarrow> duplicate (s ! k') (s ! k) \<longrightarrow>
                  slpc (Qualities (aln_one (s ! k'))) \<le> slpc (Qualities (aln_one (s ! b)))
                  \<and> (slpc (Qualities (aln_one (s ! k'))) = slpc (Qualities (aln_one (s ! b)))
                       \<longrightarrow> b \<le> k')"
      using best [of k'] by blast
  qed
  with out count show ?thesis by (intro conjI)
qed

text \<open>The theorem at the example inputs.\<close>

theorem best_pair_retained_witness:
  "std_sort_contract example_sort
   \<and> 0 < length example_paired
   \<and> 1 < length example_sorted
   \<and> remove_pcr_duplicates example_score example_sort False example_libraries
        example_paired example_mates example_unpaired
      = Inr \<lparr>rg_to_library = example_libraries,
              paired_strs_by_rg = [[example_read ''p2'' 100 ''#I'']],
              mate_pairs_by_rg = [[example_read ''m2'' 300 ''II'']],
              unpaired_strs_by_rg = [[example_read ''u1'' 150 ''II'']],
              dup_count = 1\<rparr>
   \<and> duplicate (example_sorted ! 2) (example_sorted ! 1)
   \<and> example_score (Qualities (aln_one (example_sorted ! 1))) = - 2
   \<and> example_score (Qualities (aln_one (example_sorted ! 2))) = - 1
   \<and> aln_one (example_sorted ! 2) = example_read ''p2'' 100 ''#I''
   \<and> aln_two (example_sorted ! 2) = example_read ''m2'' 300 ''II''
   \<and> length [example_read ''p2'' 100 ''#I''] + length [example_read ''u1'' 150 ''II'']
       = card (signature ` set example_sorted)
   \<and> (\<exists>b<length example_sorted. duplicate (example_sorted ! b) (example_sorted ! 1)
        \<and> (aln_one (example_sorted ! b), aln_two (example_sorted ! b))
             \<in> set (zip [example_read ''p2'' 100 ''#I''] [example_read ''m2'' 300 ''II''])
        \<and> example_score (Qualities (aln_one (example_sorted ! 1)))
            \<le> example_score (Qualities (aln_one (example_sorted ! b))))"
proof -
  have i: "0 < length example_paired" by (simp add: example_paired_def)
  have k: "1 < length example_sorted" by (simp add: example_sorted_def)
  have d: "duplicate (example_sorted ! 1) (example_sorted ! 1)" by (simp add: duplicate_iff)
  have d2: "duplicate (example_sorted ! 2) (example_sorted ! 1)"
    by (simp add: example_sorted_def eval_defs)
  have paired: "\<not> single_ended p" if "duplicate p (example_sorted ! 1)" for p
    using that by (simp add: example_sorted_def eval_defs)
  have vals: "example_score (Qualities (aln_one (example_sorted ! 1))) = - 2"
    "example_score (Qualities (aln_one (example_sorted ! 2))) = - 1"
    "aln_one (example_sorted ! 2) = example_read ''p2'' 100 ''#I''"
    "aln_two (example_sorted ! 2) = example_read ''m2'' 300 ''II''"
    by (simp_all add: example_sorted_def eval_defs)
  note inst = best_pair_retained [OF example_run example_sort_contract i
      example_group_sorted [symmetric] k]
  from inst have count: "length [example_read ''p2'' 100 ''#I''] + length [example_read ''u1'' 150 ''II'']
       = card (signature ` set example_sorted)"
    by simp
  from inst obtain b where b: "b < length example_sorted"
    "duplicate (example_sorted ! b) (example_sorted ! 1)"
    "\<not> single_ended (example_sorted ! b) \<longrightarrow>
       (aln_one (example_sorted ! b), aln_two (example_sorted ! b))
         \<in> set (zip [example_read ''p2'' 100 ''#I''] [example_read ''m2'' 300 ''II''])"
    "\<forall>k'<length example_sorted. duplicate (example_sorted ! k') (example_sorted ! 1) \<longrightarrow>
       example_score (Qualities (aln_one (example_sorted ! k')))
         \<le> example_score (Qualities (aln_one (example_sorted ! b)))
       \<and> (example_score (Qualities (aln_one (example_sorted ! k')))
            = example_score (Qualities (aln_one (example_sorted ! b))) \<longrightarrow> b \<le> k')"
    by auto
  from b(4) k d have "example_score (Qualities (aln_one (example_sorted ! 1)))
            \<le> example_score (Qualities (aln_one (example_sorted ! b)))"
    by blast
  with b(1,2,3) paired [OF b(2)]
  have "\<exists>b<length example_sorted. duplicate (example_sorted ! b) (example_sorted ! 1)
        \<and> (aln_one (example_sorted ! b), aln_two (example_sorted ! b))
             \<in> set (zip [example_read ''p2'' 100 ''#I''] [example_read ''m2'' 300 ''II''])
        \<and> example_score (Qualities (aln_one (example_sorted ! 1)))
            \<le> example_score (Qualities (aln_one (example_sorted ! b)))"
    by blast
  with example_sort_contract i k example_run d2 vals count show ?thesis by (intro conjI)
qed

text \<open>
  \<^bold>\<open>C3.\<close> When the total number of reads of the locus is below \<open>MIN_TOTAL_READS\<close>,
  \<open>analyze_reads_and_phasing\<close> returns the processor it was given with one more entry in
  its trace, the log message: no model lookup, no EM training and no genotyping call is
  recorded, and all four counters are unchanged.
\<close>

theorem too_few_reads_only_logs:
  assumes "(\<Sum>alns\<leftarrow>alignments. int (length alns)) < MIN_TOTAL_READS st"
  shows "analyze_reads_and_phasing ext st alignments log_p1s log_p2s rg_names region ref_allele chrom_seq
           = Inr (st\<lparr>trace := trace st
                    @ [Log_skipping_locus (\<Sum>alns\<leftarrow>alignments. int (length alns)) (MIN_TOTAL_READS st)]\<rparr>)"
  using assms by (simp add: analyze_reads_and_phasing_def count_reads_sum emit_def)

text \<open>The theorem at the example inputs.\<close>

theorem too_few_reads_only_logs_witness:
  "(\<Sum>alns\<leftarrow>example_alignments. int (length alns)) < MIN_TOTAL_READS (example_processor 10 False False)
   \<and> analyze_reads_and_phasing (example_collaborators True) (example_processor 10 False False)
        example_alignments [] [] [''a'', ''b''] example_region ''ACGT'' ''ACGT''
      = Inr ((example_processor 10 False False)\<lparr>trace := [Log_skipping_locus 3 10]\<rparr>)"
proof -
  have h: "(\<Sum>alns\<leftarrow>example_alignments. int (length alns))
             < MIN_TOTAL_READS (example_processor 10 False False)"
    by (simp add: example_defs)
  show ?thesis
    using h too_few_reads_only_logs [OF h, of "example_collaborators True" "[]" "[]"
        "[''a'', ''b'']" example_region "''ACGT''" "''ACGT''"]
    by (simp add: example_defs)
qed

text \<open>
  \<^bold>\<open>C4.\<close> In train mode, for a locus that reaches the training and whose EM training does
  not converge: the stutter model stays null, and the function returns the processor with
  \<open>num_em_fail\<close> incremented by one and with the trace extended by the read warnings, the
  construction and training of the EM genotyper, the failure message and the timing
  lines. No other counter changes and no genotyping call of either path is recorded.
\<close>

theorem train_failure:
  assumes train_mode: "\<not> read_stutter_models st"
    and enough: "MIN_TOTAL_READS st \<le> count_reads alignments"
    and sizes: "length alignments = length log_p1s" "length alignments = length log_p2s"
               "length alignments = length rg_names"
    and extracted: "extract_lengths ext (read_stutter_models st) (use_seq_aligner st) region
                      alignments log_p1s log_p2s = Inr ex"
    and still_enough: "MIN_TOTAL_READS st \<le> count_reads alignments - skip_count ex"
    and not_converged:
      "\<not> EM_train ext (make_EM_args region (chrom region \<in> haploid_chroms st) ex rg_names)"
  shows "fst (snd (acquire_stutter_model ext (emit (ex_log ex) st) region
                     (make_EM_args region (chrom region \<in> haploid_chroms st) ex rg_names)
                     (inf_reads ex))) = None
       \<and> analyze_reads_and_phasing ext st alignments log_p1s log_p2s rg_names region
            ref_allele chrom_seq
          = Inr (st\<lparr>num_em_fail := num_em_fail st + 1,
                    trace := trace st @ ex_log ex
                      @ [Log_building_EM, Call_EM_construct, Log_training_EM, Call_EM_train,
                         Log_training_failed region (inf_reads ex), Log_locus_timing False]\<rparr>)"
  using assms
  by (simp add: analyze_reads_and_phasing_def train_and_genotype_def acquire_stutter_model_def
      genotyping_block_def emit_def Let_def)

text \<open>The theorem at the example inputs.\<close>

theorem train_failure_witness:
  "\<not> read_stutter_models (example_processor 2 False False)
   \<and> \<not> EM_train (example_collaborators False)
         (make_EM_args example_region (chrom example_region \<in> haploid_chroms (example_processor 2 False False))
            example_extraction [''a'', ''b''])
   \<and> analyze_reads_and_phasing (example_collaborators False) (example_processor 2 False False)
        example_alignments example_log_p1s example_log_p2s [''a'', ''b''] example_region ''ACGT'' ''ACGT''
      = Inr ((example_processor 2 False False)
             \<lparr>num_em_fail := 1,
              trace := [Log_excluding_read ''r2'', Log_building_EM, Call_EM_construct,
                        Log_training_EM, Call_EM_train,
                        Log_training_failed example_region 2, Log_locus_timing False]\<rparr>)"
proof -
  let ?st = "example_processor 2 False False"
  have mode: "\<not> read_stutter_models ?st"
    by (simp add: example_processor_def)
  have enough: "MIN_TOTAL_READS ?st \<le> count_reads example_alignments"
    by (simp add: example_defs count_reads_def)
  have sizes: "length example_alignments = length example_log_p1s"
    "length example_alignments = length example_log_p2s"
    "length example_alignments = length [''a'', ''b'']"
    by (simp_all add: example_alignments_def example_log_p1s_def example_log_p2s_def)
  have ex: "extract_lengths (example_collaborators False) (read_stutter_models ?st)
              (use_seq_aligner ?st) example_region example_alignments example_log_p1s example_log_p2s
            = Inr example_extraction"
    by (simp add: example_defs example_extraction_def init_extraction_def extract_read_def
      push_back_at_def extract_lengths_def example_log_p1s_def example_log_p2s_def)
  have still: "MIN_TOTAL_READS ?st \<le> count_reads example_alignments - skip_count example_extraction"
    by (simp add: example_defs count_reads_def example_extraction_def)
  have fails: "\<not> EM_train (example_collaborators False)
         (make_EM_args example_region (chrom example_region \<in> haploid_chroms ?st)
            example_extraction [''a'', ''b''])"
    by (simp add: example_collaborators_def)
  show ?thesis
    using mode fails
      train_failure [OF mode enough sizes ex still fails, of "''ACGT''" "''ACGT''"]
    by (simp add: example_processor_def example_extraction_def)
qed

text \<open>
  \<^bold>\<open>C5\<close> (as amended). The count that \<open>remove_pcr_duplicates\<close> reports is the number of
  discarded read pairs: a duplicate set of \<open>k\<close> read pairs contributes \<open>k - 1\<close>. Summed
  over the read groups, it is the number of read pairs of the group minus the number of
  distinct signatures among them.
\<close>

theorem duplicate_count_is_discarded_pairs:
  assumes run: "remove_pcr_duplicates slpc sort_pairs use_bam_rgs m paired mates unpaired = Inr res"
    and contract: "std_sort_contract sort_pairs"
  shows "dup_count res =
     (\<Sum>i = 0..<length paired.
        int (length (paired ! i) + length (unpaired ! i))
        - int (card (signature ` set
            (group_read_pairs use_bam_rgs m (paired ! i) (mates ! i) (unpaired ! i)))))"
proof -
  let ?g = "\<lambda>i. group_read_pairs use_bam_rgs m (paired ! i) (mates ! i) (unpaired ! i)"
  have "int (length (sort_pairs (?g i))) - int (length (retained_pairs slpc (sort_pairs (?g i))))
      = int (length (paired ! i) + length (unpaired ! i)) - int (card (signature ` set (?g i)))"
    if "i \<in> {0..<length paired}" for i
  proof -
    from that have i: "i < length paired" by simp
    from remove_pcr_duplicates_group(1,2) [OF run i] obtain rps m' where
      len: "length (paired ! i) = length (mates ! i)"
      and build: "build_read_pairs use_bam_rgs m (paired ! i) (mates ! i) (unpaired ! i) = Inr (rps, m')"
      by blast
    from build have g: "?g i = rps" by (simp add: group_read_pairs_def)
    from build_read_pairs_elems(1) [OF build] len
    have "length rps = length (paired ! i) + length (unpaired ! i)" by simp
    with g show ?thesis
      by (simp add: contract_length [OF contract] contract_set [OF contract]
          retained_length [OF contract_sorted [OF contract]])
  qed
  then show ?thesis
    unfolding remove_pcr_duplicates_count [OF run] by (rule sum.cong [OF refl])
qed

text \<open>The theorem at the example inputs.\<close>

theorem duplicate_count_is_discarded_pairs_witness:
  "std_sort_contract example_sort
   \<and> dup_count \<lparr>rg_to_library = example_libraries,
              paired_strs_by_rg = [[example_read ''p2'' 100 ''#I'']],
              mate_pairs_by_rg = [[example_read ''m2'' 300 ''II'']],
              unpaired_strs_by_rg = [[example_read ''u1'' 150 ''II'']],
              dup_count = 1\<rparr>
     = (\<Sum>i = 0..<length example_paired.
          int (length (example_paired ! i) + length (example_unpaired ! i))
          - int (card (signature ` set (group_read_pairs False example_libraries
                  (example_paired ! i) (example_mates ! i) (example_unpaired ! i)))))
   \<and> length (example_paired ! 0) + length (example_unpaired ! 0) = 3
   \<and> card (signature ` set (group_read_pairs False example_libraries
                  (example_paired ! 0) (example_mates ! 0) (example_unpaired ! 0))) = 2"
proof -
  have "length (example_paired ! 0) + length (example_unpaired ! 0) = 3"
    by (simp add: example_paired_def example_unpaired_def)
  moreover have "card (signature ` set (group_read_pairs False example_libraries
                  (example_paired ! 0) (example_mates ! 0) (example_unpaired ! 0))) = 2"
    by (simp add: eval_defs group_read_pairs_def)
  ultimately show ?thesis
    using duplicate_count_is_discarded_pairs [OF example_run example_sort_contract]
      example_sort_contract
    by blast
qed

text \<open>Three unpaired reads of one library at one position form a single duplicate set,
  and the reported count is 2.\<close>

theorem duplicate_count_counterexample:
  "remove_pcr_duplicates example_score example_sort False example_libraries
        [[]] [[]] [example_triplicate]
      = Inr \<lparr>rg_to_library = example_libraries,
              paired_strs_by_rg = [[]],
              mate_pairs_by_rg = [[]],
              unpaired_strs_by_rg = [[example_read ''c'' 150 ''II'']],
              dup_count = 2\<rparr>
   \<and> signature ` set (group_read_pairs False example_libraries [] [] example_triplicate)
       = {(''lib1'', - 1, 150)}"
  by (simp add: eval_defs group_read_pairs_def example_triplicate_def rg_loop.simps
      scan_pairs.simps)

text \<open>
  \<^bold>\<open>C6\<close> (as amended). With \<open>use_bam_rgs\<close> set, if any read of any read group has no
  \<^verbatim>\<open>RG\<close> tag, or a tag whose read group has no library in the map (that is, if
  \<open>get_library\<close> fails on it), then \<open>remove_pcr_duplicates\<close> does not return: it ends in
  an error, and for vectors of consistent sizes the error is one of the two fatal errors
  of \<open>get_library\<close>.
\<close>

theorem missing_library_is_fatal:
  assumes missing: "RG aln = None \<or> (\<exists>rg. RG aln = Some rg \<and> m rg = None)"
    and i: "i < length paired"
    and aln: "aln \<in> set (paired ! i) \<union> set (unpaired ! i)"
  shows "\<exists>e. remove_pcr_duplicates slpc sort_pairs True m paired mates unpaired = Inl e
       \<and> (length mates = length paired \<and> length unpaired = length paired
            \<and> (\<forall>k<length paired. length (paired ! k) = length (mates ! k))
          \<longrightarrow> library_error e)"
proof (cases "remove_pcr_duplicates slpc sort_pairs True m paired mates unpaired")
  case (Inr res)
  from missing obtain e0 where bad: "get_library aln m = Inl e0"
    by (auto simp: get_library_def)
  from remove_pcr_duplicates_group(1,2) [OF Inr i] obtain rps m' where
    "length (paired ! i) = length (mates ! i)"
    "build_read_pairs True m (paired ! i) (mates ! i) (unpaired ! i) = Inr (rps, m')"
    by blast
  from build_read_pairs_tags [OF this(2,1) aln] bad show ?thesis by simp
next
  case (Inl e)
  have "library_error e"
    if "length mates = length paired \<and> length unpaired = length paired
            \<and> (\<forall>k<length paired. length (paired ! k) = length (mates ! k))"
  proof -
    from Inl that have "rg_loop slpc sort_pairs True 0
           \<lparr>rg_to_library = m, paired_strs_by_rg = paired, mate_pairs_by_rg = mates,
            unpaired_strs_by_rg = unpaired, dup_count = 0\<rparr> = Inl e"
      by (simp add: remove_pcr_duplicates_def)
    from rg_loop_error [OF this] that show ?thesis by simp
  qed
  with Inl show ?thesis by blast
qed

text \<open>The theorem at the example inputs.\<close>

theorem missing_library_is_fatal_witness:
  "RG example_untagged = None
   \<and> 0 < length [[] :: BamAlignment list]
   \<and> example_untagged \<in> set ([[]] ! 0) \<union> set ([[example_untagged]] ! 0)
   \<and> remove_pcr_duplicates example_score example_sort True example_libraries
        [[]] [[]] [[example_untagged]] = Inl MissingRGTag
   \<and> library_error MissingRGTag"
proof -
  have tag: "RG example_untagged = None"
    by (simp add: example_untagged_def)
  then have bad: "RG example_untagged = None
      \<or> (\<exists>rg. RG example_untagged = Some rg \<and> example_libraries rg = None)"
    by simp
  have i: "0 < length [[] :: BamAlignment list]" by simp
  have aln: "example_untagged \<in> set ([[]] ! 0) \<union> set ([[example_untagged]] ! 0)" by simp
  have run: "remove_pcr_duplicates example_score example_sort True example_libraries
        [[]] [[]] [[example_untagged]] = Inl MissingRGTag"
    using missing_library_is_fatal [OF bad i aln, of example_score example_sort "[[]]"]
    by (simp add: eval_defs example_untagged_def rg_loop.simps)
  from tag i aln run show ?thesis by simp
qed

text \<open>Without \<open>use_bam_rgs\<close> the library is looked up by file name with
  \<^verbatim>\<open>operator[]\<close>: a read without tag and without library entry is kept, with the empty
  library.\<close>

theorem missing_library_counterexample:
  "RG example_untagged = None
   \<and> example_libraries (Filename example_untagged) = None
   \<and> remove_pcr_duplicates example_score example_sort False example_libraries
        [[]] [[]] [[example_untagged]]
      = Inr \<lparr>rg_to_library = example_libraries(''other.bam'' \<mapsto> []),
              paired_strs_by_rg = [[]],
              mate_pairs_by_rg = [[]],
              unpaired_strs_by_rg = [[example_untagged]],
              dup_count = 0\<rparr>
   \<and> map library (group_read_pairs False example_libraries [] [] [example_untagged]) = [[]]"
  by (simp add: eval_defs group_read_pairs_def example_untagged_def rg_loop.simps
      scan_pairs.simps)

text \<open>
  \<^bold>\<open>C7.\<close> For a read whose length difference \<^verbatim>\<open>ExtractCigar\<close> has computed (and whose
  phasing entries exist, when phasing vectors are given): a difference equal to
  \<open>- (stop - start + 1)\<close> is appended to the lengths of its read group and counted as
  informative, with no warning; a difference one smaller leaves the evidence unchanged
  and logs the warning with the name of the read.
\<close>

theorem reference_length_boundary:
  assumes got_size: "ExtractCigar ext (CigarData aln) (Position aln)
                       (start region - period region) (stop region + period region) = Some bp_diff"
    and phasing: "length log_p1s = 0 \<or> (i < length log_p1s \<and> j < length (log_p1s ! i)
                    \<and> i < length log_p2s \<and> j < length (log_p2s ! i))"
  shows "(bp_diff = - (stop region - start region + 1) \<longrightarrow>
           (\<exists>ex'. extract_read ext region log_p1s log_p2s i j aln ex = Inr ex'
              \<and> str_bp_lengths ex' = push_back_at i bp_diff (str_bp_lengths ex)
              \<and> inf_reads ex' = inf_reads ex + 1
              \<and> skip_count ex' = skip_count ex
              \<and> ex_log ex' = ex_log ex))
       \<and> (bp_diff = - (stop region - start region + 1) - 1 \<longrightarrow>
            extract_read ext region log_p1s log_p2s i j aln ex
              = Inr (ex\<lparr>ex_log := ex_log ex @ [Log_excluding_read (Name aln)]\<rparr>))"
  using assms by (auto simp: extract_read_def Let_def)

text \<open>The theorem at the example inputs.\<close>

theorem reference_length_boundary_witness:
  "extract_read (example_collaborators True) example_region [] [] 0 0
      (example_read ''r1'' 103 ''II'') (init_extraction 1)
     = Inr ((init_extraction 1)\<lparr>str_bp_lengths := [[- 12]], str_log_p1s := [[0]],
              str_log_p2s := [[0]], inf_reads := 1\<rparr>)
   \<and> extract_read (example_collaborators True) example_region [] [] 0 1
      (example_read ''r2'' 102 ''II'') (init_extraction 1)
     = Inr ((init_extraction 1)\<lparr>ex_log := [Log_excluding_read ''r2'']\<rparr>)"
proof -
  have a: "ExtractCigar (example_collaborators True) (CigarData (example_read ''r1'' 103 ''II''))
             (Position (example_read ''r1'' 103 ''II''))
             (start example_region - period example_region)
             (stop example_region + period example_region) = Some (- 12)"
    by (simp add: example_defs)
  have b: "ExtractCigar (example_collaborators True) (CigarData (example_read ''r2'' 102 ''II''))
             (Position (example_read ''r2'' 102 ''II''))
             (start example_region - period example_region)
             (stop example_region + period example_region) = Some (- 13)"
    by (simp add: example_defs)
  have p: "length ([] :: real list list) = 0 \<or> (0 < length ([] :: real list list)
             \<and> 0 < length (([] :: real list list) ! 0)
             \<and> 0 < length ([] :: real list list) \<and> 0 < length (([] :: real list list) ! 0))"
    by simp
  have p': "length ([] :: real list list) = 0 \<or> (0 < length ([] :: real list list)
             \<and> 1 < length (([] :: real list list) ! 0)
             \<and> 0 < length ([] :: real list list) \<and> 1 < length (([] :: real list list) ! 0))"
    by simp
  show ?thesis
    using reference_length_boundary [OF a p, of "init_extraction 1"] reference_length_boundary [OF b p', of "init_extraction 1"]
    by (simp add: example_defs init_extraction_def extract_read_def push_back_at_def)
qed



text \<open>Phasing vectors that pass the assertion with an empty entry for a read group (no
  phasing information for that group) do not reach line 41 either: the first read of the
  group with a plausible length difference reads \<^verbatim>\<open>log_p1s[i][j]\<close> past the end.\<close>

lemma empty_phasing_batch_out_of_range:
  assumes enough: "MIN_TOTAL_READS st \<le> count_reads ((aln # alns) # rest)"
    and sizes: "length ((aln # alns) # rest) = length log_p1s"
      "length ((aln # alns) # rest) = length log_p2s"
      "length ((aln # alns) # rest) = length rg_names"
    and runs: "\<not> read_stutter_models st \<or> \<not> use_seq_aligner st"
    and empty: "log_p1s ! 0 = []"
    and got_size: "ExtractCigar ext (CigarData aln) (Position aln)
                     (start region - period region) (stop region + period region) = Some bp_diff"
    and plausible: "- (stop region - start region + 1) \<le> bp_diff"
  shows "analyze_reads_and_phasing ext st ((aln # alns) # rest) log_p1s log_p2s rg_names region
           ref_allele chrom_seq = Inl IndexOutOfRange"
proof -
  from sizes(1) have ne: "log_p1s \<noteq> []" by auto
  with empty got_size plausible
  have "extract_read ext region log_p1s log_p2s 0 0 aln (init_extraction (length ((aln # alns) # rest)))
          = Inl IndexOutOfRange"
    by (simp add: extract_read_def Let_def)
  with runs have "extract_lengths ext (read_stutter_models st) (use_seq_aligner st) region
      ((aln # alns) # rest) log_p1s log_p2s = Inl IndexOutOfRange"
    by (auto simp: extract_lengths_def)
  with enough sizes show ?thesis
    by (simp add: analyze_reads_and_phasing_def)
qed

lemma empty_phasing_batch_example:
  "analyze_reads_and_phasing (example_collaborators True) (example_processor 2 False False)
        example_alignments [[], []] [[], []] [''a'', ''b''] example_region ''ACGT'' ''ACGT''
      = Inl IndexOutOfRange"
  by (simp add: analyze_reads_and_phasing_def example_defs count_reads_def extract_lengths_def
      init_extraction_def extract_read_def push_back_at_def)

text \<open>The loop alone, called with an empty \<^verbatim>\<open>log_p1s\<close> as it would be with assertions
  compiled out, never fails and records 0 and 0 for every length difference.\<close>

lemma extract_lengths_no_phasing:
  "\<exists>ex. extract_lengths ext read_models seq_aligner region alignments [] log_p2s = Inr ex
     \<and> str_log_p1s ex = map (\<lambda>l. replicate (length l) 0) (str_bp_lengths ex)
     \<and> str_log_p2s ex = map (\<lambda>l. replicate (length l) 0) (str_bp_lengths ex)"
  using extract_groups_no_phasing [OF init_no_phasing, of ext region log_p2s 0 alignments "length alignments"]
    init_no_phasing [of "length alignments"]
  by (auto simp: extract_lengths_def no_phasing_inv_def equal_weight_def)

lemma extract_lengths_no_phasing_example:
  "extract_lengths (example_collaborators True) False False example_region example_alignments [] []
     = Inr \<lparr>str_bp_lengths = [[- 12], [- 5]], str_log_p1s = [[0], [0]], str_log_p2s = [[0], [0]],
            inf_reads = 2, skip_count = 0, ex_log = [Log_excluding_read ''r2'']\<rparr>"
  using extract_lengths_no_phasing [of "example_collaborators True" False False example_region example_alignments "[]"]
  by (simp add: example_defs init_extraction_def extract_read_def push_back_at_def extract_lengths_def)

text \<open>
  \<^bold>\<open>C9.\<close> After \<open>remove_pcr_duplicates\<close> has returned, in every read group the paired
  vector and the mate vector have the same length, and the entries at every index of the
  two are a read and a mate that stood at one and the same index of the input vectors.
\<close>

theorem mates_stay_paired:
  assumes run: "remove_pcr_duplicates slpc sort_pairs use_bam_rgs m paired mates unpaired = Inr res"
    and contract: "std_sort_contract sort_pairs"
    and i: "i < length paired"
  shows "length (paired_strs_by_rg res ! i) = length (mate_pairs_by_rg res ! i)
       \<and> length (paired ! i) = length (mates ! i)
       \<and> (\<forall>k<length (paired_strs_by_rg res ! i). \<exists>j<length (paired ! i).
            paired_strs_by_rg res ! i ! k = paired ! i ! j
            \<and> mate_pairs_by_rg res ! i ! k = mates ! i ! j)"
proof -
  let ?g = "group_read_pairs use_bam_rgs m (paired ! i) (mates ! i) (unpaired ! i)"
  let ?kept = "filter (\<lambda>p. \<not> single_ended p) (retained_pairs slpc (sort_pairs ?g))"
  from remove_pcr_duplicates_group [OF run i] obtain rps m' where
    len: "length (paired ! i) = length (mates ! i)"
    and build: "build_read_pairs use_bam_rgs m (paired ! i) (mates ! i) (unpaired ! i) = Inr (rps, m')"
    and out: "paired_strs_by_rg res ! i = map aln_one ?kept"
      "mate_pairs_by_rg res ! i = map aln_two ?kept"
    by (auto simp: emit_pairs_eq)
  from build have g: "?g = rps" by (simp add: group_read_pairs_def)
  have "\<exists>j<length (paired ! i).
            paired_strs_by_rg res ! i ! k = paired ! i ! j
            \<and> mate_pairs_by_rg res ! i ! k = mates ! i ! j"
    if "k < length (paired_strs_by_rg res ! i)" for k
  proof -
    from that out have k: "k < length ?kept" by simp
    then have "?kept ! k \<in> set ?kept" by (rule nth_mem)
    then have p: "?kept ! k \<in> set rps" "\<not> single_ended (?kept ! k)"
      using retained_subset [of slpc "sort_pairs ?g"] contract_set [OF contract, of ?g] g
      by auto
    from build_read_pairs_elems(2) [OF build p(1)] p(2) obtain a b lib where
      ab: "(a, b) \<in> set (zip (paired ! i) (mates ! i))" "?kept ! k = ReadPair_paired a b lib"
      by auto
    from ab(1) obtain j where "j < length (paired ! i)" "paired ! i ! j = a" "mates ! i ! j = b"
      by (auto simp: in_set_zip)
    with ab(2) k out show ?thesis by auto
  qed
  with len out show ?thesis by simp
qed

text \<open>The theorem at the example inputs.\<close>

theorem mates_stay_paired_witness:
  "std_sort_contract example_sort
   \<and> 0 < length example_paired
   \<and> remove_pcr_duplicates example_score example_sort False example_libraries
        example_paired example_mates example_unpaired
      = Inr \<lparr>rg_to_library = example_libraries,
              paired_strs_by_rg = [[example_paired ! 0 ! 1]],
              mate_pairs_by_rg = [[example_mates ! 0 ! 1]],
              unpaired_strs_by_rg = example_unpaired,
              dup_count = 1\<rparr>
   \<and> length (example_paired ! 0) = length (example_mates ! 0)"
proof -
  have i: "0 < length example_paired" by (simp add: example_paired_def)
  have run: "remove_pcr_duplicates example_score example_sort False example_libraries
        example_paired example_mates example_unpaired
      = Inr \<lparr>rg_to_library = example_libraries,
              paired_strs_by_rg = [[example_paired ! 0 ! 1]],
              mate_pairs_by_rg = [[example_mates ! 0 ! 1]],
              unpaired_strs_by_rg = example_unpaired,
              dup_count = 1\<rparr>"
    by (simp add: example_run) (simp add: example_paired_def example_mates_def example_unpaired_def)
  from mates_stay_paired [OF example_run example_sort_contract i]
  have "length (example_paired ! 0) = length (example_mates ! 0)" by blast
  with example_sort_contract i run show ?thesis by blast
qed

text \<open>
  \<^bold>\<open>C10.\<close> With stutter models read from the dictionary and the sequence-based genotyper
  in use, the extraction loop does not run: its result is the initial one (nothing
  skipped, nothing logged, no length recorded), and a locus that passes the first
  minimum-read check and the assertion goes on to model lookup and genotyping.
\<close>

theorem extraction_skipped_with_loaded_models:
  assumes "read_stutter_models st" "use_seq_aligner st"
  shows "extract_lengths ext (read_stutter_models st) (use_seq_aligner st) region
           alignments log_p1s log_p2s = Inr (init_extraction (length alignments))
       \<and> skip_count (init_extraction (length alignments)) = 0
       \<and> ex_log (init_extraction (length alignments)) = []
       \<and> (MIN_TOTAL_READS st \<le> count_reads alignments
            \<and> length alignments = length log_p1s \<and> length alignments = length log_p2s
            \<and> length alignments = length rg_names \<longrightarrow>
          analyze_reads_and_phasing ext st alignments log_p1s log_p2s rg_names region ref_allele chrom_seq
            = train_and_genotype ext st (init_extraction (length alignments))
                alignments log_p1s log_p2s rg_names region chrom_seq)"
  using assms
  by (simp add: extract_lengths_def analyze_reads_and_phasing_def init_extraction_def Let_def)

text \<open>The theorem at the example inputs.\<close>

theorem extraction_skipped_with_loaded_models_witness:
  "read_stutter_models (example_processor 2 True True)
   \<and> use_seq_aligner (example_processor 2 True True)
   \<and> extract_lengths (example_collaborators True) True True example_region
        example_alignments example_log_p1s example_log_p2s = Inr (init_extraction 2)
   \<and> skip_count (init_extraction 2) = 0
   \<and> analyze_reads_and_phasing (example_collaborators True) (example_processor 2 True True)
        example_alignments example_log_p1s example_log_p2s [''a'', ''b''] example_region ''ACGT'' ''ACGT''
      = Inr ((example_processor 2 True True)
             \<lparr>trace := [Call_model_lookup example_region, Log_no_stutter_model example_region,
                        Log_locus_timing False]\<rparr>)"
proof -
  let ?st = "example_processor 2 True True"
  have a: "read_stutter_models ?st" and b: "use_seq_aligner ?st"
    by (simp_all add: example_processor_def)
  have c: "MIN_TOTAL_READS ?st \<le> count_reads example_alignments"
    by (simp add: example_defs count_reads_def)
  have n: "length example_alignments = 2" "length example_log_p1s = 2" "length example_log_p2s = 2"
    by (simp_all add: example_alignments_def example_log_p1s_def example_log_p2s_def)
  show ?thesis
    using a b c
      extraction_skipped_with_loaded_models [OF a b, of "example_collaborators True" example_region example_alignments
        example_log_p1s example_log_p2s "[''a'', ''b'']" "''ACGT''" "''ACGT''"]
    by (simp add: n)
      (simp add: example_processor_def train_and_genotype_def acquire_stutter_model_def
        genotyping_block_def emit_def Let_def)
qed

end
